theory Spec2Isabelle
  imports Main "HOL-Library.Word"
begin

unbundle bit_operations_syntax

section \<open>Data model of the allocator (malloc.c)\<close>

text \<open>
  The code targets 64-bit Linux: pointers, \<open>size_t\<close> and \<open>intptr_t\<close> are 64-bit words
  and \<open>int\<close> is a 32-bit word.  Arithmetic on them wraps around; the signed reading
  of an \<open>intptr_t\<close> is \<open>sint\<close>.
\<close>

type_synonym addr = "64 word"

text \<open>
  \<open>struct Header\<close>.  The fields \<open>next\<close> and \<open>size\<close> are called \<open>nxt\<close> and
  \<open>bsize\<close> here, the source's names being taken in Isabelle.
\<close>

record Header =
  prev :: addr
  nxt :: addr
  bsize :: addr
  flags :: "32 word"

text \<open>A line written to standard error by \<open>free\<close>: \<open>"Invalid free at %p\n"\<close>.\<close>

datatype diag = Invalid_free addr

text \<open>An invalid memory access ends the process (SIGSEGV).\<close>

datatype fault = Segfault

text \<open>
  The process-wide state the allocator works on: the block headers that have been
  written (by address), the payload bytes, the list ends \<open>s_head\<close> and \<open>s_tail\<close> of
  malloc.c, the heap region of EasySandbox.c (\<open>s_heap\<close>, \<open>s_heapsize\<close>, \<open>s_brk\<close>),
  \<open>errno\<close>, and what has been printed on standard error.  The headers are kept by
  address, apart from the bytes: where a header has been written, the memory of the
  machine holds its four fields, and the bytes stored for those addresses are out of
  sight (the four bytes of padding behind \<open>flags\<close> excepted, which no assignment
  to a field touches).
\<close>

record state =
  hdrs :: "addr \<rightharpoonup> Header"
  bytes :: "addr \<Rightarrow> 8 word"
  s_head :: addr
  s_tail :: addr
  s_heap :: addr
  s_heapsize :: addr
  s_brk :: addr
  errno :: int
  stderr_out :: "diag list"

definition MIN_ALLOC :: addr where
  "MIN_ALLOC = 65536"

definition ALLOCATED :: "32 word" where
  "ALLOCATED = 1"

definition ENOMEM :: int where
  "ENOMEM = 12"

text \<open>\<open>sizeof(struct Header)\<close>: two pointers, a \<open>size_t\<close>, an \<open>int\<close> and padding.\<close>

definition sizeof_Header :: addr where
  "sizeof_Header = 32"

definition bindE :: "fault + 'a \<Rightarrow> ('a \<Rightarrow> fault + 'b) \<Rightarrow> fault + 'b" where
  "bindE m f = (case m of Inl e \<Rightarrow> Inl e | Inr x \<Rightarrow> f x)"

subsection \<open>Reading and writing headers\<close>

text \<open>
  A header can be read only at an address where one has been written; the null
  pointer holds none, and reading through it is the fault the hardware raises.  A
  write through a non-null pointer stores the field; memory of the anonymous mapping
  that was never written reads as zero.
\<close>

definition zero_Header :: Header where
  "zero_Header = \<lparr>prev = 0, nxt = 0, bsize = 0, flags = 0\<rparr>"

definition rd :: "addr \<Rightarrow> state \<Rightarrow> fault + Header" where
  "rd a st = (case hdrs st a of None \<Rightarrow> Inl Segfault | Some h \<Rightarrow> Inr h)"

definition wr :: "addr \<Rightarrow> (Header \<Rightarrow> Header) \<Rightarrow> state \<Rightarrow> fault + state" where
  "wr a f st =
     (if a = 0 then Inl Segfault
      else Inr (st\<lparr>hdrs := (hdrs st)(a \<mapsto>
                  f (case hdrs st a of None \<Rightarrow> zero_Header | Some h \<Rightarrow> h))\<rparr>))"

subsection \<open>The break pointer (EasySandbox.c, sbrk)\<close>

text \<open>
  \<open>used\<close> and \<open>remaining\<close> are \<open>intptr_t\<close>; the comparison \<open>remaining < incr\<close> is
  signed.  The failure value is \<open>(void *) -1\<close>.
\<close>

definition sbrk :: "addr \<Rightarrow> state \<Rightarrow> addr \<times> state" where
  "sbrk incr st =
     (let st1 = (if s_brk st = 0 then st\<lparr>s_brk := s_heap st\<rparr> else st);
          used = s_brk st1 - s_heap st1;
          remaining = s_heapsize st1 - used
      in if remaining <s incr then (- 1, st1\<lparr>errno := ENOMEM\<rparr>)
         else (s_brk st1, st1\<lparr>s_brk := s_brk st1 + incr\<rparr>))"

subsection \<open>malloc.c\<close>

definition round_to_multiple :: "addr \<Rightarrow> addr \<Rightarrow> addr" where
  "round_to_multiple n multiple =
     (if n mod multiple \<noteq> 0 then n + (multiple - n mod multiple) else n)"

definition is_allocated :: "Header \<Rightarrow> bool" where
  "is_allocated h = (flags h AND ALLOCATED \<noteq> 0)"

definition alloc_block :: "addr \<Rightarrow> state \<Rightarrow> fault + (addr \<times> state)" where
  "alloc_block block_size0 st =
     (let block_size = (if block_size0 < MIN_ALLOC then MIN_ALLOC else block_size0);
          (block, st1) = sbrk block_size st
      in if block = - 1 then Inr (0, st1)
         else
           bindE (wr block (\<lambda>h. h\<lparr>nxt := 0\<rparr>) st1) (\<lambda>st2.
           bindE (if s_head st2 = 0
                  then wr block (\<lambda>h. h\<lparr>prev := 0\<rparr>) (st2\<lparr>s_head := block, s_tail := block\<rparr>)
                  else bindE (wr (s_tail st2) (\<lambda>h. h\<lparr>nxt := block\<rparr>) st2) (\<lambda>st3.
                       bindE (wr block (\<lambda>h. h\<lparr>prev := s_tail st3\<rparr>) st3) (\<lambda>st4.
                       Inr (st4\<lparr>s_tail := block\<rparr>)))) (\<lambda>st5.
           bindE (wr block (\<lambda>h. h\<lparr>bsize := block_size\<rparr>) st5) (\<lambda>st6.
           bindE (wr block (\<lambda>h. h\<lparr>flags := 0\<rparr>) st6) (\<lambda>st7.
           Inr (block, st7))))))"

definition split_block_if_necessary :: "addr \<Rightarrow> addr \<Rightarrow> state \<Rightarrow> fault + state" where
  "split_block_if_necessary block required_block_size st =
     bindE (rd block st) (\<lambda>b.
     let left_over = bsize b - required_block_size
     in if left_over \<le> sizeof_Header then Inr st
        else
          bindE (wr block (\<lambda>h. h\<lparr>bsize := required_block_size\<rparr>) st) (\<lambda>st1.
          let excess = block + required_block_size
          in bindE (wr excess (\<lambda>h. h\<lparr>bsize := left_over\<rparr>) st1) (\<lambda>st2.
             bindE (wr excess (\<lambda>h. h\<lparr>flags := 0\<rparr>) st2) (\<lambda>st3.
             bindE (rd block st3) (\<lambda>b3.
             bindE (wr excess (\<lambda>h. h\<lparr>nxt := nxt b3\<rparr>) st3) (\<lambda>st4.
             bindE (wr excess (\<lambda>h. h\<lparr>prev := block\<rparr>) st4) (\<lambda>st5.
             bindE (rd block st5) (\<lambda>b5.
             bindE (if nxt b5 \<noteq> 0
                    then wr (nxt b5) (\<lambda>h. h\<lparr>prev := excess\<rparr>) st5
                    else Inr (st5\<lparr>s_tail := excess\<rparr>)) (\<lambda>st6.
             wr block (\<lambda>h. h\<lparr>nxt := excess\<rparr>) st6)))))))))"

definition coalesce_if_necessary :: "addr \<Rightarrow> state \<Rightarrow> fault + state" where
  "coalesce_if_necessary block st =
     bindE (rd block st) (\<lambda>b.
     if is_allocated b \<or> nxt b = 0 then Inr st
     else
       bindE (rd (nxt b) st) (\<lambda>s.
       if is_allocated s then Inr st
       else
         bindE (wr block (\<lambda>h. h\<lparr>bsize := bsize h + bsize s\<rparr>) st) (\<lambda>st1.
         bindE (rd block st1) (\<lambda>b1.
         bindE (rd (nxt b1) st1) (\<lambda>s1.
         bindE (if nxt s1 \<noteq> 0
                then wr (nxt b1) (\<lambda>h. h\<lparr>prev := block\<rparr>) st1
                else Inr (st1\<lparr>s_tail := block\<rparr>)) (\<lambda>st2.
         bindE (rd block st2) (\<lambda>b2.
         bindE (rd (nxt b2) st2) (\<lambda>s2.
         wr block (\<lambda>h. h\<lparr>nxt := nxt s2\<rparr>) st2))))))))"

text \<open>
  The search loop of \<open>malloc\<close>: the first block of the list that is large enough and
  not allocated, or null.  The loop follows \<open>next\<close> pointers and need not end on a
  cyclic list: \<open>None\<close> is the run that does not return.
\<close>

partial_function (option) malloc_search :: "state \<Rightarrow> addr \<Rightarrow> addr \<Rightarrow> (fault + addr) option" where
  "malloc_search st required_block_size block =
     (if block = 0 then Some (Inr 0)
      else case hdrs st block of
             None \<Rightarrow> Some (Inl Segfault)
           | Some h \<Rightarrow>
               if required_block_size \<le> bsize h \<and> \<not> is_allocated h then Some (Inr block)
               else malloc_search st required_block_size (nxt h))"

text \<open>
  The end of \<open>malloc\<close>, once the block is known: split it if it is too large, mark
  it allocated, return the address behind its header.
\<close>

definition malloc_found :: "addr \<Rightarrow> addr \<Rightarrow> state \<Rightarrow> fault + (addr \<times> state)" where
  "malloc_found block required_block_size st =
     bindE (split_block_if_necessary block required_block_size st) (\<lambda>st1.
     bindE (wr block (\<lambda>h. h\<lparr>flags := flags h OR ALLOCATED\<rparr>) st1) (\<lambda>st2.
     Inr (block + sizeof_Header, st2)))"

definition malloc :: "addr \<Rightarrow> state \<Rightarrow> (fault + (addr \<times> state)) option" where
  "malloc sz st =
     (let required_block_size = round_to_multiple (sz + sizeof_Header) sizeof_Header
      in case malloc_search st required_block_size (s_head st) of
           None \<Rightarrow> None
         | Some (Inl e) \<Rightarrow> Some (Inl e)
         | Some (Inr found) \<Rightarrow>
             if found = 0
             then (case alloc_block required_block_size st of
                     Inl e \<Rightarrow> Some (Inl e)
                   | Inr (block, st1) \<Rightarrow>
                       if block = 0 then Some (Inr (0, st1\<lparr>errno := ENOMEM\<rparr>))
                       else Some (malloc_found block required_block_size st1))
             else Some (malloc_found found required_block_size st))"

definition free :: "addr \<Rightarrow> state \<Rightarrow> fault + state" where
  "free p st =
     (if p = 0 then Inr st
      else
        let block = p - sizeof_Header
        in bindE (rd block st) (\<lambda>b.
           if \<not> is_allocated b then Inr (st\<lparr>stderr_out := stderr_out st @ [Invalid_free p]\<rparr>)
           else
             bindE (wr block (\<lambda>h. h\<lparr>flags := flags h AND NOT ALLOCATED\<rparr>) st) (\<lambda>st1.
             bindE (coalesce_if_necessary block st1) (\<lambda>st2.
             bindE (rd block st2) (\<lambda>b2.
             coalesce_if_necessary (prev b2) st2)))))"

subsection \<open>memset and memcpy\<close>

text \<open>
  The bytes a program may touch are those of the reserved region
  \<open>[s_heap, s_heap + s_heapsize)\<close>; elsewhere the access faults.  A length of zero
  touches nothing.
\<close>

definition in_arena :: "state \<Rightarrow> addr \<Rightarrow> addr \<Rightarrow> bool" where
  "in_arena st a n =
     (unat (s_heap st) \<le> unat a \<and> unat a + unat n \<le> unat (s_heap st) + unat (s_heapsize st))"

text \<open>
  \<open>memset\<close> is called by \<open>calloc\<close> alone, on the region \<open>malloc\<close> has just
  returned, and \<open>calloc\<close> reads no header after it: \<open>memset\<close> stores the bytes and
  leaves the headers as they are.
\<close>

definition memset :: "addr \<Rightarrow> 8 word \<Rightarrow> addr \<Rightarrow> state \<Rightarrow> fault + state" where
  "memset s c n st =
     (if n = 0 then Inr st
      else if \<not> in_arena st s n then Inl Segfault
      else Inr (st\<lparr>bytes := (\<lambda>a. if a - s < n then c else bytes st a)\<rparr>))"

text \<open>
  \<open>memcpy\<close> copies within the one memory of the machine, headers included.  The
  layout of \<open>struct Header\<close> is that of x86-64: \<open>prev\<close> at offset 0, \<open>next\<close> at 8,
  \<open>size\<close> at 16, \<open>flags\<close> at 24, each with its least significant byte first.
  \<open>mem_byte st x\<close> is the byte the machine holds at \<open>x\<close>: a byte of a field of the
  header that lies over \<open>x\<close>, and the stored byte where there is none.
\<close>

definition field_byte :: "'a::len word \<Rightarrow> nat \<Rightarrow> 8 word" where
  "field_byte w k = ucast (drop_bit (8 * k) w)"

definition header_byte :: "Header \<Rightarrow> nat \<Rightarrow> 8 word" where
  "header_byte h k =
     (if k < 8 then field_byte (prev h) k
      else if k < 16 then field_byte (nxt h) (k - 8)
      else if k < 24 then field_byte (bsize h) (k - 16)
      else field_byte (flags h) (k - 24))"

definition mem_byte :: "state \<Rightarrow> addr \<Rightarrow> 8 word" where
  "mem_byte st x =
     (case find (\<lambda>k. hdrs st (x - of_nat k) \<noteq> None) [0..<28] of
        None \<Rightarrow> bytes st x
      | Some k \<Rightarrow>
          (case hdrs st (x - of_nat k) of
             None \<Rightarrow> bytes st x
           | Some h \<Rightarrow> header_byte h k))"

text \<open>A field of \<open>n\<close> bytes read from the memory \<open>m\<close> at \<open>a\<close>, and a whole header.\<close>

definition read_field :: "(addr \<Rightarrow> 8 word) \<Rightarrow> addr \<Rightarrow> nat \<Rightarrow> 'a::len word" where
  "read_field m a n = foldr (\<lambda>k w. push_bit 8 w OR ucast (m (a + of_nat k))) [0..<n] 0"

definition read_header :: "(addr \<Rightarrow> 8 word) \<Rightarrow> addr \<Rightarrow> Header" where
  "read_header m a =
     \<lparr>prev = read_field m a 8, nxt = read_field m (a + 8) 8,
      bsize = read_field m (a + 16) 8, flags = read_field m (a + 24) 4\<rparr>"

text \<open>The fields of the header at \<open>a\<close> share a byte with the \<open>n\<close> bytes at \<open>dest\<close>.\<close>

definition overwritten :: "addr \<Rightarrow> addr \<Rightarrow> addr \<Rightarrow> bool" where
  "overwritten a dest n = (unat a < unat dest + unat n \<and> unat dest < unat a + 28)"

text \<open>
  The copy: the bytes at the destination become those the machine held at the
  source, and a header with a field in the destination is from then on what these
  bytes say.
\<close>

definition memcpy :: "addr \<Rightarrow> addr \<Rightarrow> addr \<Rightarrow> state \<Rightarrow> fault + state" where
  "memcpy dest src n st =
     (if n = 0 then Inr st
      else if \<not> in_arena st dest n \<or> \<not> in_arena st src n then Inl Segfault
      else
        let m = (\<lambda>a. if a - dest < n then mem_byte st (src + (a - dest)) else mem_byte st a)
        in Inr (st\<lparr>bytes := (\<lambda>a. if a - dest < n then m a else bytes st a),
                    hdrs := (\<lambda>a. case hdrs st a of
                                    None \<Rightarrow> None
                                  | Some h \<Rightarrow>
                                      if overwritten a dest n then Some (read_header m a)
                                      else Some h)\<rparr>))"

definition calloc :: "addr \<Rightarrow> addr \<Rightarrow> state \<Rightarrow> (fault + (addr \<times> state)) option" where
  "calloc nmemb sz st =
     (case malloc (nmemb * sz) st of
        None \<Rightarrow> None
      | Some (Inl e) \<Rightarrow> Some (Inl e)
      | Some (Inr (buf, st1)) \<Rightarrow>
          if buf \<noteq> 0
          then Some (bindE (memset buf 0 (nmemb * sz) st1) (\<lambda>st2. Inr (buf, st2)))
          else Some (Inr (buf, st1)))"

definition realloc :: "addr \<Rightarrow> addr \<Rightarrow> state \<Rightarrow> (fault + (addr \<times> state)) option" where
  "realloc ptr sz st =
     (if ptr = 0 then malloc sz st
      else if sz = 0 then Some (bindE (free ptr st) (\<lambda>st1. Inr (0, st1)))
      else
        let block = ptr - sizeof_Header
        in case malloc sz st of
             None \<Rightarrow> None
           | Some (Inl e) \<Rightarrow> Some (Inl e)
           | Some (Inr (buf, st1)) \<Rightarrow>
               if buf = 0 then Some (Inr (0, st1))
               else Some (
                 bindE (rd block st1) (\<lambda>b.
                 let to_copy0 = bsize b - sizeof_Header;
                     to_copy = (if sz < to_copy0 then sz else to_copy0)
                 in bindE (memcpy buf ptr to_copy st1) (\<lambda>st2.
                    bindE (free ptr st2) (\<lambda>st3.
                    Inr (buf, st3))))))"

declare malloc_search.simps [code]

subsection \<open>Heap states and sequences of calls\<close>

text \<open>
  The state in which the first allocator call finds the process: the statics of
  malloc.c and \<open>s_brk\<close> are zero, and \<open>__libc_start_main\<close> has stored the mapping's
  address and length in \<open>s_heap\<close> and \<open>s_heapsize\<close>.
\<close>

definition heap0 :: "addr \<Rightarrow> addr \<Rightarrow> state" where
  "heap0 base len =
     \<lparr>hdrs = Map.empty, bytes = (\<lambda>_. 0), s_head = 0, s_tail = 0,
      s_heap = base, s_heapsize = len, s_brk = 0, errno = 0, stderr_out = []\<rparr>"

datatype request = Malloc addr | Calloc addr addr | Realloc addr addr | Free addr

text \<open>
  A program's calls, one after the other.  The run stops at the first fault, and is
  \<open>None\<close> when a call does not return.
\<close>

fun run :: "request list \<Rightarrow> state \<Rightarrow> (fault + state) option" where
  "run [] st = Some (Inr st)"
| "run (Malloc n # cs) st =
     (case malloc n st of
        None \<Rightarrow> None
      | Some (Inl e) \<Rightarrow> Some (Inl e)
      | Some (Inr (p, st1)) \<Rightarrow> run cs st1)"
| "run (Calloc k n # cs) st =
     (case calloc k n st of
        None \<Rightarrow> None
      | Some (Inl e) \<Rightarrow> Some (Inl e)
      | Some (Inr (p, st1)) \<Rightarrow> run cs st1)"
| "run (Realloc q n # cs) st =
     (case realloc q n st of
        None \<Rightarrow> None
      | Some (Inl e) \<Rightarrow> Some (Inl e)
      | Some (Inr (p, st1)) \<Rightarrow> run cs st1)"
| "run (Free q # cs) st =
     (case free q st of Inl e \<Rightarrow> Some (Inl e) | Inr st1 \<Rightarrow> run cs st1)"

text \<open>
  The block list as a reader of the heap sees it: \<open>chain h a bs\<close> says that following
  \<open>next\<close> pointers from \<open>a\<close> visits exactly the headers at \<open>bs\<close> and then null.
\<close>

fun chain :: "(addr \<rightharpoonup> Header) \<Rightarrow> addr \<Rightarrow> addr list \<Rightarrow> bool" where
  "chain h a [] = (a = 0)"
| "chain h a (b # bs) =
     (a = b \<and> b \<noteq> 0 \<and> (case h b of None \<Rightarrow> False | Some x \<Rightarrow> chain h (nxt x) bs))"

definition is_free_at :: "(addr \<rightharpoonup> Header) \<Rightarrow> addr \<Rightarrow> bool" where
  "is_free_at h b = (case h b of None \<Rightarrow> False | Some x \<Rightarrow> \<not> is_allocated x)"

definition block_end :: "(addr \<rightharpoonup> Header) \<Rightarrow> addr \<Rightarrow> nat" where
  "block_end h b = (case h b of None \<Rightarrow> unat b | Some x \<Rightarrow> unat b + unat (bsize x))"

text \<open>No two blocks that follow each other in the list and in memory are both free.\<close>

fun no_adjacent_free :: "(addr \<rightharpoonup> Header) \<Rightarrow> addr list \<Rightarrow> bool" where
  "no_adjacent_free h (b # c # bs) =
     (\<not> (is_free_at h b \<and> is_free_at h c \<and> block_end h b = unat c)
      \<and> no_adjacent_free h (c # bs))"
| "no_adjacent_free h bs = True"

definition sum_sizes :: "(addr \<rightharpoonup> Header) \<Rightarrow> addr list \<Rightarrow> nat" where
  "sum_sizes h bs = sum_list (map (\<lambda>b. case h b of None \<Rightarrow> 0 | Some x \<Rightarrow> unat (bsize x)) bs)"

text \<open>The bytes by which the break pointer has been advanced.\<close>

definition advanced :: "state \<Rightarrow> nat" where
  "advanced st = (if s_brk st = 0 then 0 else unat (s_brk st - s_heap st))"

section \<open>Startup interception (EasySandbox.c)\<close>

definition DEFAULT_HEAP_SIZE :: addr where
  "DEFAULT_HEAP_SIZE = 8388608"

definition DLOPEN_FAILED :: int where
  "DLOPEN_FAILED = 120"

definition SECCOMP_FAILED :: int where
  "SECCOMP_FAILED = 121"

definition EXIT_FAILED :: int where
  "EXIT_FAILED = 122"

definition MMAP_FAILED :: int where
  "MMAP_FAILED = 123"

definition MAP_FAILED :: addr where
  "MAP_FAILED = - 1"

definition EOF :: int where
  "EOF = - 1"

definition O_NONBLOCK :: "32 word" where
  "O_NONBLOCK = 2048"

text \<open>
  What the process does that the outside can see, in order: library and system calls,
  and the calls of the target's own functions.
\<close>

datatype event =
    Getenv_heapsize
  | Mmap addr
  | Dlopen_libc
  | Dlsym_libc_start_main
  | Fprintf_stdout string
  | Fflush_stdout
  | Fprintf_stderr string
  | Fflush_stderr
  | Fcntl_getfl
  | Fcntl_setfl "32 word"
  | Fgetc_stdin
  | Ungetc_stdin int
  | Prctl_seccomp
  | Real_init
  | Real_main
  | Syscall_exit int
  | Underscore_exit int
  | Libc_exit int
  | Null_call

text \<open>
  What the outside answers: the environment variable (the value \<open>atol\<close> reads from it,
  as a \<open>size_t\<close>), the results of \<open>mmap\<close>, \<open>dlopen\<close>, \<open>dlsym\<close>, \<open>fcntl(F_GETFL)\<close>,
  \<open>fgetc\<close> and \<open>prctl\<close>, and what the target's \<open>main\<close> returns.
\<close>

record world =
  heapenv :: "addr option"
  mmap_result :: addr
  dlopen_result :: addr
  dlsym_result :: addr
  stdin_flags :: "32 word"
  fgetc_result :: int
  prctl_result :: int
  main_result :: int

text \<open>
  A piece of the run: the events in order, and the value returned, or \<open>None\<close> when
  the process has ended inside.
\<close>

type_synonym 'a exec = "event list \<times> 'a option"

definition call :: "event \<Rightarrow> 'a \<Rightarrow> 'a exec" where
  "call e x = ([e], Some x)"

definition ended :: "event \<Rightarrow> 'a exec" where
  "ended e = ([e], None)"

definition seq :: "'a exec \<Rightarrow> ('a \<Rightarrow> 'b exec) \<Rightarrow> 'b exec" where
  "seq r f =
     (case snd r of
        None \<Rightarrow> (fst r, None)
      | Some x \<Rightarrow> (fst r @ fst (f x), snd (f x)))"

text \<open>
  \<open>exit\<close> of EasySandbox.c, here \<open>exit_sandbox\<close>, flushes both streams and issues
  the exit system call, which ends the process: the loop around the call does not
  come round, and the statement after \<open>exit\<close> in \<open>wrapper_main\<close> is never reached.
\<close>

definition exit_sandbox :: "int \<Rightarrow> unit exec" where
  "exit_sandbox exit_code =
     seq (call Fflush_stdout ()) (\<lambda>_.
     seq (call Fflush_stderr ()) (\<lambda>_.
     ended (Syscall_exit exit_code)))"

definition sentinel :: string where
  "sentinel = ''<<entering SECCOMP mode>>''"

definition wrapper_init :: "world \<Rightarrow> unit exec" where
  "wrapper_init w =
     seq (call (Fprintf_stdout sentinel) ()) (\<lambda>_.
     seq (call Fflush_stdout ()) (\<lambda>_.
     seq (call (Fprintf_stderr sentinel) ()) (\<lambda>_.
     seq (call Fflush_stderr ()) (\<lambda>_.
     seq (call Fcntl_getfl (stdin_flags w)) (\<lambda>fl.
     seq (call (Fcntl_setfl (fl OR O_NONBLOCK)) ()) (\<lambda>_.
     seq (call Fgetc_stdin (fgetc_result w)) (\<lambda>c.
     seq (if c \<noteq> EOF then call (Ungetc_stdin c) () else ([], Some ())) (\<lambda>_.
     seq (call (Fcntl_setfl fl) ()) (\<lambda>_.
     seq (call Prctl_seccomp (prctl_result w)) (\<lambda>r.
     seq (if r = - 1 then ended (Underscore_exit SECCOMP_FAILED) else ([], Some ())) (\<lambda>_.
     call Real_init ())))))))))))"

definition wrapper_main :: "world \<Rightarrow> int exec" where
  "wrapper_main w =
     seq (call Real_main (main_result w)) (\<lambda>n.
     seq (exit_sandbox n) (\<lambda>_.
     ([], Some EXIT_FAILED)))"

text \<open>
  The C library's own \<open>__libc_start_main\<close>, which is not part of this program: it
  calls the \<open>init\<close> function it is given, then \<open>main\<close>, and leaves with the value
  \<open>main\<close> returns.
\<close>

definition real_libc_start_main :: "int exec \<Rightarrow> unit exec \<Rightarrow> int exec" where
  "real_libc_start_main main init =
     seq init (\<lambda>_.
     seq main (\<lambda>r.
     ended (Libc_exit r)))"

text \<open>
  The replacement for \<open>__libc_start_main\<close>.  A null result of \<open>dlsym\<close> is called like
  any other: the call through it is the last thing the process does.
\<close>

definition libc_start_main :: "world \<Rightarrow> int exec" where
  "libc_start_main w =
     seq (call Getenv_heapsize (heapenv w)) (\<lambda>env.
     let heapsize = (case env of None \<Rightarrow> DEFAULT_HEAP_SIZE | Some v \<Rightarrow> v)
     in seq (call (Mmap heapsize) (mmap_result w)) (\<lambda>heap.
        seq (if heap = MAP_FAILED then ended (Underscore_exit MMAP_FAILED) else ([], Some ())) (\<lambda>_.
        seq (call Dlopen_libc (dlopen_result w)) (\<lambda>libc_handle.
        seq (if libc_handle = 0 then ended (Underscore_exit DLOPEN_FAILED) else ([], Some ())) (\<lambda>_.
        seq (call Dlsym_libc_start_main (dlsym_result w)) (\<lambda>real.
        if real = 0 then ended Null_call
        else real_libc_start_main (wrapper_main w) (wrapper_init w)))))))"

text \<open>The events of a run before the first occurrence of \<open>e\<close>, and those after it.\<close>

definition before :: "event \<Rightarrow> event list \<Rightarrow> event list" where
  "before e t = takeWhile (\<lambda>x. x \<noteq> e) t"

definition after :: "event \<Rightarrow> event list \<Rightarrow> event list" where
  "after e t = tl (dropWhile (\<lambda>x. x \<noteq> e) t)"

text \<open>The priming steps of \<open>wrapper_init\<close>, as the run shows them.\<close>

definition priming :: "world \<Rightarrow> event list" where
  "priming w =
     [Fprintf_stdout sentinel, Fflush_stdout, Fprintf_stderr sentinel, Fflush_stderr,
      Fcntl_getfl, Fcntl_setfl (stdin_flags w OR O_NONBLOCK), Fgetc_stdin,
      Fcntl_setfl (stdin_flags w)]"

definition setup_ok :: "world \<Rightarrow> bool" where
  "setup_ok w = (mmap_result w \<noteq> MAP_FAILED \<and> dlopen_result w \<noteq> 0 \<and> dlsym_result w \<noteq> 0)"

subsection \<open>Concrete runs\<close>

text \<open>The state a sequence of calls leaves, when every call returns.\<close>

definition state_after :: "request list \<Rightarrow> state \<Rightarrow> state" where
  "state_after cs st = (case run cs st of Some (Inr st') \<Rightarrow> st' | _ \<Rightarrow> st)"

text \<open>
  Five small allocations, then the third, the second and the fourth block are freed.
  With the mapping at address 1048576 the blocks lie at 1048576, 1048640, 1048704,
  1048768 and 1048832; the pointers handed out are 32 bytes further.
\<close>

definition free_middle_calls :: "request list" where
  "free_middle_calls =
     [Malloc 1, Malloc 1, Malloc 1, Malloc 1, Malloc 1,
      Free 1048736, Free 1048672, Free 1048800]"

text \<open>
  Four small allocations, the same three frees, then a request that no block of the
  list can serve.
\<close>

definition free_then_extend_calls :: "request list" where
  "free_then_extend_calls =
     [Malloc 1, Malloc 1, Malloc 1, Malloc 1,
      Free 1048736, Free 1048672, Free 1048800, Malloc 100000]"

text \<open>Worlds for the startup sequence.\<close>

definition world_ok :: world where
  "world_ok =
     \<lparr>heapenv = None, mmap_result = 1048576, dlopen_result = 4096, dlsym_result = 8192,
      stdin_flags = 2, fgetc_result = 97, prctl_result = 0, main_result = 0\<rparr>"

definition world_seccomp_fails :: world where
  "world_seccomp_fails = world_ok\<lparr>prctl_result := - 1\<rparr>"

definition world_dlsym_null :: world where
  "world_dlsym_null = world_ok\<lparr>dlsym_result := 0\<rparr>"

section \<open>Notions the properties are stated with\<close>

text \<open>
  The block size \<open>malloc\<close> computes for a request, the amount by which \<open>alloc_block\<close>
  extends the heap for it, and what it means that the request cannot be served: the
  search through the list ends without a block and the break cannot be advanced.
\<close>

definition required_size :: "addr \<Rightarrow> addr" where
  "required_size sz = round_to_multiple (sz + sizeof_Header) sizeof_Header"

definition extension_size :: "addr \<Rightarrow> addr" where
  "extension_size sz = (if required_size sz < MIN_ALLOC then MIN_ALLOC else required_size sz)"

definition allocation_fails :: "addr \<Rightarrow> state \<Rightarrow> bool" where
  "allocation_fails sz st =
     (malloc_search st (required_size sz) (s_head st) = Some (Inr 0)
      \<and> fst (sbrk (extension_size sz) st) = - 1)"

text \<open>The break: \<open>s_brk\<close>, which \<open>sbrk\<close> sets to the start of the region on first use.\<close>

definition brk_of :: "state \<Rightarrow> addr" where
  "brk_of st = (if s_brk st = 0 then s_heap st else s_brk st)"

text \<open>
  \<open>tiles h lo bs hi\<close>: the blocks at \<open>bs\<close>, each at least a header long, lie one after
  the other and fill the addresses from \<open>lo\<close> to \<open>hi\<close>.
\<close>

fun tiles :: "(addr \<rightharpoonup> Header) \<Rightarrow> nat \<Rightarrow> addr list \<Rightarrow> nat \<Rightarrow> bool" where
  "tiles h lo [] hi = (lo = hi)"
| "tiles h lo (b # bs) hi =
     (unat b = lo
      \<and> (case h b of
            None \<Rightarrow> False
          | Some x \<Rightarrow> unat sizeof_Header \<le> unat (bsize x) \<and> tiles h (lo + unat (bsize x)) bs hi))"

text \<open>
  A well-formed heap with block list \<open>bs\<close>: the \<open>next\<close> pointers lead from \<open>s_head\<close>
  through \<open>bs\<close> to null, \<open>s_tail\<close> is the last block, the blocks fill the region from
  its start to the break, and the region is a mapping in the lower half of the
  address space.
\<close>

definition wf_heap :: "state \<Rightarrow> addr list \<Rightarrow> bool" where
  "wf_heap st bs =
     (chain (hdrs st) (s_head st) bs
      \<and> tiles (hdrs st) (unat (s_heap st)) bs (unat (brk_of st))
      \<and> last (s_tail st # bs) = s_tail st
      \<and> s_heap st \<noteq> 0
      \<and> unat (brk_of st) \<le> unat (s_heap st) + unat (s_heapsize st)
      \<and> unat (s_heap st) + unat (s_heapsize st) < 2 ^ 63)"

subsection \<open>The operations as the specification words them\<close>


text \<open>
  resize(pointer, newSize): null pointer, allocate(newSize); newSize of zero,
  free(pointer) and the failure sentinel; otherwise allocate a fresh block of newSize,
  copy min(old usable size, newSize) bytes, free the original block, return the new
  address.  The old usable size is that of the block as the call finds it.
\<close>

definition old_usable_size :: "addr \<Rightarrow> state \<Rightarrow> fault + addr" where
  "old_usable_size p st =
     (case hdrs st (p - sizeof_Header) of
        None \<Rightarrow> Inl Segfault
      | Some b \<Rightarrow> Inr (bsize b - sizeof_Header))"

definition resize :: "addr \<Rightarrow> addr \<Rightarrow> state \<Rightarrow> (fault + (addr \<times> state)) option" where
  "resize p new_size st =
     (if p = 0 then malloc new_size st
      else if new_size = 0
      then Some (case free p st of Inl e \<Rightarrow> Inl e | Inr st1 \<Rightarrow> Inr (0, st1))
      else
        case malloc new_size st of
          None \<Rightarrow> None
        | Some (Inl e) \<Rightarrow> Some (Inl e)
        | Some (Inr (q, st1)) \<Rightarrow>
            if q = 0 then Some (Inr (0, st1))
            else Some (
              case old_usable_size p st of
                Inl e \<Rightarrow> Inl e
              | Inr old \<Rightarrow>
                  (case memcpy q p (min old new_size) st1 of
                     Inl e \<Rightarrow> Inl e
                   | Inr st2 \<Rightarrow>
                       (case free p st2 of Inl e \<Rightarrow> Inl e | Inr st3 \<Rightarrow> Inr (q, st3)))))"

subsection \<open>Relations between the states before and after an operation\<close>

text \<open>
  \<open>keeps st st' a\<close>: a header at \<open>a\<close> is still there, with its size and flags.
  \<open>same_globals\<close>: nothing but the headers and \<open>s_tail\<close> has changed.  \<open>pres\<close>:
  nothing but the headers and \<open>s_tail\<close> has changed, and every header has kept its
  flags.  \<open>chosen st bs req st0 block b\<close> collects what holds of the block \<open>malloc\<close>
  settles on, before it is split and marked: \<open>st0\<close> is \<open>st\<close> when the search found
  the block, and the state \<open>alloc_block\<close> leaves otherwise.
\<close>

definition keeps :: "state \<Rightarrow> state \<Rightarrow> addr \<Rightarrow> bool" where
  "keeps st st' a =
     (case hdrs st a of
        None \<Rightarrow> True
      | Some x \<Rightarrow> (case hdrs st' a of
                    None \<Rightarrow> False
                  | Some y \<Rightarrow> bsize y = bsize x \<and> flags y = flags x))"

definition same_globals :: "state \<Rightarrow> state \<Rightarrow> bool" where
  "same_globals st st' =
     (bytes st' = bytes st \<and> s_head st' = s_head st \<and> s_heap st' = s_heap st
      \<and> s_heapsize st' = s_heapsize st \<and> s_brk st' = s_brk st \<and> errno st' = errno st
      \<and> stderr_out st' = stderr_out st)"

definition chosen :: "state \<Rightarrow> addr list \<Rightarrow> addr \<Rightarrow> state \<Rightarrow> addr \<Rightarrow> Header \<Rightarrow> bool" where
  "chosen st bs req st0 block b =
     (hdrs st0 block = Some b \<and> block \<noteq> 0 \<and> unat block < 2 ^ 63
      \<and> req \<le> bsize b \<and> \<not> is_allocated b
      \<and> (bsize b - req \<le> sizeof_Header \<or> unat block + unat req < 2 ^ 63)
      \<and> (\<forall>a\<in>set bs. a \<noteq> block \<longrightarrow>
            keeps st st0 a \<and> (bsize b - req \<le> sizeof_Header \<or> a \<noteq> block + req))
      \<and> (block \<in> set bs \<longrightarrow> is_free_at (hdrs st) block)
      \<and> (nxt b = 0 \<or> unat (nxt b) = unat block + unat (bsize b))
      \<and> (unat req < 2 ^ 63 \<longrightarrow>
            unat block + unat (bsize b) \<le> unat (brk_of st0)
            \<and> unat (brk_of st0) \<le> unat (s_heap st) + unat (s_heapsize st))
      \<and> bytes st0 = bytes st \<and> s_heap st0 = s_heap st \<and> s_heapsize st0 = s_heapsize st
      \<and> errno st0 = errno st \<and> stderr_out st0 = stderr_out st)"

definition pres :: "state \<Rightarrow> state \<Rightarrow> bool" where
  "pres st st' =
     (bytes st' = bytes st \<and> s_brk st' = s_brk st \<and> s_heap st' = s_heap st
      \<and> s_heapsize st' = s_heapsize st \<and> errno st' = errno st
      \<and> stderr_out st' = stderr_out st \<and> s_head st' = s_head st
      \<and> (\<forall>a x. hdrs st a = Some x \<longrightarrow> (\<exists>y. hdrs st' a = Some y \<and> flags y = flags x)))"


subsection \<open>States for the examples\<close>

text \<open>
  Two allocated blocks and the free rest of the first extension; a region of 65536
  bytes that the first extension has used up; and an empty heap whose memory is not
  zero.
\<close>

definition two_blocks :: state where
  "two_blocks = state_after [Malloc 1, Malloc 1] (heap0 1048576 8388608)"

definition full_heap :: state where
  "full_heap = state_after [Malloc 1] (heap0 1048576 65536)"

definition dirty_heap :: state where
  "dirty_heap = (heap0 1048576 8388608)\<lparr>bytes := (\<lambda>_. 170)\<rparr>"

section \<open>Evaluation rules\<close>

lemmas startup_defs =
  libc_start_main_def real_libc_start_main_def wrapper_init_def wrapper_main_def
  exit_sandbox_def seq_def call_def ended_def before_def after_def priming_def setup_ok_def
  MAP_FAILED_def EOF_def Let_def

lemmas alloc_defs =
  malloc_def malloc_found_def alloc_block_def split_block_if_necessary_def
  coalesce_if_necessary_def free_def sbrk_def rd_def wr_def bindE_def round_to_multiple_def
  is_allocated_def MIN_ALLOC_def ALLOCATED_def ENOMEM_def sizeof_Header_def zero_Header_def
  heap0_def Let_def

lemmas eval_simps =
  alloc_defs malloc_search.simps word_sless_alt state_after_def
  is_free_at_def block_end_def sum_sizes_def advanced_def

lemmas copy_simps = realloc_def memcpy_def in_arena_def overwritten_def

lemmas example_simps =
  eval_simps wf_heap_def brk_of_def allocation_fails_def required_size_def extension_size_def
  two_blocks_def full_heap_def dirty_heap_def

section \<open>Auxiliary facts\<close>

subsection \<open>Words\<close>

lemma bindE_simps [simp]: "bindE (Inl e) f = Inl e" "bindE (Inr x) f = f x"
  by (simp_all add: bindE_def)


lemma unat_plus_small:
  fixes a b :: addr
  assumes "unat a + unat b < 2 ^ 64"
  shows "unat (a + b) = unat a + unat b"
  using assms unat_add_lem [of a b] by simp

lemma round_to_multiple_32:
  fixes m :: addr
  assumes "unat m + 32 < 2 ^ 64"
  shows "unat m \<le> unat (round_to_multiple m 32)"
    and "unat (round_to_multiple m 32) \<le> unat m + 31"
proof -
  let ?r = "unat m mod 32"
  have r: "unat (m mod 32) = ?r" by (simp add: unat_mod)
  have lt: "?r < 32" by simp
  have le: "m mod 32 \<le> 32" using r lt by (simp add: word_le_nat_alt)
  have d: "unat (32 - m mod 32) = 32 - ?r"
    using unat_sub [OF le] r by simp
  have s: "unat (m + (32 - m mod 32)) = unat m + (32 - ?r)"
    using unat_plus_small [of m "32 - m mod 32"] d assms by simp
  have z: "m mod 32 \<noteq> 0 \<longleftrightarrow> ?r \<noteq> 0"
    using r by (metis unat_eq_0)
  show "unat m \<le> unat (round_to_multiple m 32)"
    using lt by (cases "m mod 32 = 0") (simp_all add: round_to_multiple_def s)
  show "unat (round_to_multiple m 32) \<le> unat m + 31"
    using z lt by (cases "m mod 32 = 0") (simp_all add: round_to_multiple_def s)
qed

lemma required_size_bounds:
  assumes "unat n + 64 \<le> 2 ^ 63"
  shows "unat n + 32 \<le> unat (required_size n)" and "unat (required_size n) \<le> unat n + 63"
proof -
  have m: "unat (n + 32) = unat n + 32"
    using unat_plus_small [of n 32] assms by simp
  have b: "unat (n + 32) + 32 < 2 ^ 64" using m assms by simp
  show "unat n + 32 \<le> unat (required_size n)"
    using round_to_multiple_32(1) [OF b] m by (simp add: required_size_def sizeof_Header_def)
  show "unat (required_size n) \<le> unat n + 63"
    using round_to_multiple_32(2) [OF b] m by (simp add: required_size_def sizeof_Header_def)
qed


subsection \<open>The block list\<close>

lemma chain_ConsD:
  "chain h a (c # cs) \<Longrightarrow> a = c \<and> c \<noteq> 0 \<and> (\<exists>y. h c = Some y \<and> chain h (nxt y) cs)"
  by (cases "h c") auto

lemma tiles_ConsD:
  "tiles h lo (c # cs) hi \<Longrightarrow>
     \<exists>y. h c = Some y \<and> unat c = lo \<and> unat sizeof_Header \<le> unat (bsize y)
        \<and> tiles h (lo + unat (bsize y)) cs hi"
  by (cases "h c") auto

lemma chain_mem:
  "chain h a bs \<Longrightarrow> b \<in> set bs \<Longrightarrow> b \<noteq> 0 \<and> (\<exists>x. h b = Some x)"
  by (induction bs arbitrary: a) (auto split: option.splits)

lemma tiles_le: "tiles h lo bs hi \<Longrightarrow> lo \<le> hi"
proof (induction bs arbitrary: lo)
  case Nil
  then show ?case by simp
next
  case (Cons c cs)
  from tiles_ConsD [OF Cons.prems] obtain y :: Header
    where "tiles h (lo + unat (bsize y)) cs hi"
    by blast
  from Cons.IH [OF this] show ?case by simp
qed

lemma tiles_mem: "tiles h lo bs hi \<Longrightarrow> b \<in> set bs \<Longrightarrow> \<exists>x. h b = Some x"
proof (induction bs arbitrary: lo)
  case Nil
  then show ?case by simp
next
  case (Cons c cs)
  from tiles_ConsD [OF Cons.prems(1)] obtain y where y: "h c = Some y"
    and t: "tiles h (lo + unat (bsize y)) cs hi"
    by blast
  show ?case
  proof (cases "b = c")
    case True
    with y show ?thesis by simp
  next
    case False
    with Cons.prems(2) have "b \<in> set cs" by simp
    from Cons.IH [OF t this] show ?thesis .
  qed
qed

lemma tiles_bounds:
  "tiles h lo bs hi \<Longrightarrow> b \<in> set bs \<Longrightarrow> h b = Some x \<Longrightarrow>
     lo \<le> unat b \<and> unat b + unat (bsize x) \<le> hi \<and> unat sizeof_Header \<le> unat (bsize x)"
proof (induction bs arbitrary: lo)
  case Nil
  then show ?case by simp
next
  case (Cons c cs)
  from tiles_ConsD [OF Cons.prems(1)] obtain y where y: "h c = Some y" "unat c = lo"
    and s: "unat sizeof_Header \<le> unat (bsize y)"
    and t: "tiles h (lo + unat (bsize y)) cs hi"
    by blast
  show ?case
  proof (cases "b = c")
    case True
    with y s t Cons.prems(3) tiles_le [OF t] show ?thesis by simp
  next
    case False
    with Cons.prems(2) have "b \<in> set cs" by simp
    from Cons.IH [OF t this Cons.prems(3)] show ?thesis by simp
  qed
qed

lemma tiles_disjoint:
  "tiles h lo bs hi \<Longrightarrow> b \<in> set bs \<Longrightarrow> c \<in> set bs \<Longrightarrow> b \<noteq> c \<Longrightarrow> h b = Some x \<Longrightarrow>
     unat c < unat b \<or> unat b + unat (bsize x) \<le> unat c"
proof (induction bs arbitrary: lo)
  case Nil
  then show ?case by simp
next
  case (Cons d ds)
  from tiles_ConsD [OF Cons.prems(1)] obtain y where y: "h d = Some y" "unat d = lo"
    and s: "unat sizeof_Header \<le> unat (bsize y)"
    and t: "tiles h (lo + unat (bsize y)) ds hi"
    by blast
  have pos: "0 < unat (bsize y)" using s by (simp add: sizeof_Header_def)
  consider "b = d" "c \<in> set ds" | "c = d" "b \<in> set ds" | "b \<in> set ds" "c \<in> set ds"
    using Cons.prems(2,3,4) by auto
  then show ?case
  proof cases
    case 1
    obtain z where z: "h c = Some z"
      using tiles_mem [OF t 1(2)] by blast
    from tiles_bounds [OF t 1(2) z] y 1(1) Cons.prems(5) show ?thesis by simp
  next
    case 2
    from tiles_bounds [OF t 2(2) Cons.prems(5)] y 2(1) pos show ?thesis by simp
  next
    case 3
    from Cons.IH [OF t 3 Cons.prems(4,5)] show ?thesis .
  qed
qed

lemma chain_tiles_next:
  "chain h a bs \<Longrightarrow> tiles h lo bs hi \<Longrightarrow> b \<in> set bs \<Longrightarrow> h b = Some x \<Longrightarrow>
     nxt x = 0 \<or> (nxt x \<in> set bs \<and> unat (nxt x) = unat b + unat (bsize x))"
proof (induction bs arbitrary: a lo)
  case Nil
  then show ?case by simp
next
  case (Cons d ds)
  from chain_ConsD [OF Cons.prems(1)] tiles_ConsD [OF Cons.prems(2)]
  obtain y where y: "h d = Some y" "unat d = lo"
    and c: "chain h (nxt y) ds" and t: "tiles h (lo + unat (bsize y)) ds hi"
    by auto
  show ?case
  proof (cases "b = d")
    case True
    with y Cons.prems(4) have xy: "x = y" by simp
    show ?thesis
    proof (cases ds)
      case Nil
      with c xy show ?thesis by simp
    next
      case (Cons e es)
      with c t xy True y show ?thesis by (auto split: option.splits)
    qed
  next
    case False
    with Cons.prems(3) have "b \<in> set ds" by simp
    from Cons.IH [OF c t this Cons.prems(4)] show ?thesis by auto
  qed
qed

text \<open>On a list that ends, the search ends: it returns null or a free block that is large enough.\<close>

lemma malloc_search_chain:
  "chain (hdrs st) a bs \<Longrightarrow>
     \<exists>r. malloc_search st req a = Some (Inr r)
        \<and> (r = 0 \<or> (r \<in> set bs \<and> (\<exists>x. hdrs st r = Some x \<and> req \<le> bsize x \<and> \<not> is_allocated x)))"
proof (induction bs arbitrary: a)
  case Nil
  then show ?case by (subst malloc_search.simps) simp
next
  case (Cons d ds)
  from chain_ConsD [OF Cons.prems] obtain y where a: "a = d" "d \<noteq> 0"
    and y: "hdrs st d = Some y" and c: "chain (hdrs st) (nxt y) ds"
    by blast
  show ?case
  proof (cases "req \<le> bsize y \<and> \<not> is_allocated y")
    case True
    then show ?thesis using a y by (subst malloc_search.simps) simp
  next
    case False
    from Cons.IH [OF c] obtain r where
      "malloc_search st req (nxt y) = Some (Inr r)"
      "r = 0 \<or> (r \<in> set ds \<and> (\<exists>x. hdrs st r = Some x \<and> req \<le> bsize x \<and> \<not> is_allocated x))"
      by blast
    then show ?thesis using a y False by (subst malloc_search.simps) auto
  qed
qed


subsection \<open>What splitting, extending and marking change\<close>

lemma split_props:
  assumes "hdrs st block = Some b" and "block \<noteq> 0"
    and "bsize b - req \<le> sizeof_Header \<or> block + req \<noteq> 0"
  shows "\<exists>st'. split_block_if_necessary block req st = Inr st'
           \<and> same_globals st st'
           \<and> (\<forall>a. a \<noteq> block \<and> (bsize b - req \<le> sizeof_Header \<or> a \<noteq> block + req) \<longrightarrow> keeps st st' a)
           \<and> (req \<noteq> 0 \<longrightarrow>
                (\<exists>y. hdrs st' block = Some y \<and> flags y = flags b
                    \<and> (if bsize b - req \<le> sizeof_Header then bsize y = bsize b \<and> nxt y = nxt b
                        else bsize y = req \<and> nxt y = block + req)))"
  using assms
  by (auto simp: split_block_if_necessary_def rd_def wr_def Let_def keeps_def same_globals_def
        split: option.splits)

lemma sint_small:
  fixes x :: addr
  assumes "unat x < 2 ^ 63"
  shows "sint x = int (unat x)"
proof -
  from assms have "int (unat x) < int (2 ^ 63)" by (simp only: of_nat_less_iff)
  then have "uint x < int (2 ^ 63)" by (simp only: uint_nat [symmetric])
  then have lt: "uint x < 2 ^ 63" by simp
  have ge: "- (2 ^ 63) \<le> uint x"
  proof -
    have "(- (2 ^ 63) :: int) \<le> 0" by simp
    also have "0 \<le> uint x" by simp
    finally show ?thesis .
  qed
  have "signed_take_bit 63 (uint x) = uint x"
    using ge lt by (rule signed_take_bit_int_eq_self)
  then show ?thesis
    by (simp add: sint_uint)
qed

lemma sbrk_eq:
  "sbrk incr st =
     (if s_heapsize st - (brk_of st - s_heap st) <s incr
      then (- 1, st\<lparr>s_brk := brk_of st, errno := ENOMEM\<rparr>)
      else (brk_of st, st\<lparr>s_brk := brk_of st + incr\<rparr>))"
  by (simp add: sbrk_def brk_of_def Let_def)

lemma alloc_block_fail:
  assumes "s_heapsize st - (brk_of st - s_heap st) <s (if r < MIN_ALLOC then MIN_ALLOC else r)"
  shows "alloc_block r st = Inr (0, st\<lparr>s_brk := brk_of st, errno := ENOMEM\<rparr>)"
  using assms by (simp add: alloc_block_def sbrk_eq Let_def)

lemma alloc_block_success:
  assumes "\<not> s_heapsize st - (brk_of st - s_heap st) <s (if r < MIN_ALLOC then MIN_ALLOC else r)"
    and "brk_of st \<noteq> 0" and "brk_of st \<noteq> - 1" and "s_head st \<noteq> 0 \<longrightarrow> s_tail st \<noteq> 0"
  shows "\<exists>st'. alloc_block r st = Inr (brk_of st, st')
           \<and> s_brk st' = brk_of st + (if r < MIN_ALLOC then MIN_ALLOC else r)
           \<and> s_heap st' = s_heap st \<and> s_heapsize st' = s_heapsize st
           \<and> bytes st' = bytes st \<and> errno st' = errno st \<and> stderr_out st' = stderr_out st
           \<and> s_tail st' = brk_of st
           \<and> s_head st' = (if s_head st = 0 then brk_of st else s_head st)
           \<and> (\<forall>a. a \<noteq> brk_of st \<longrightarrow> keeps st st' a)
           \<and> (\<exists>y. hdrs st' (brk_of st) = Some y
                  \<and> bsize y = (if r < MIN_ALLOC then MIN_ALLOC else r) \<and> flags y = 0
                  \<and> (s_head st = 0 \<or> s_tail st \<noteq> brk_of st \<longrightarrow> nxt y = 0))"
  using assms
  by (auto simp: alloc_block_def sbrk_eq Let_def wr_def keeps_def split: option.splits)

lemma keeps_refl: "keeps st st a"
  by (simp add: keeps_def split: option.splits)

lemma keeps_trans: "keeps st st1 a \<Longrightarrow> keeps st1 st2 a \<Longrightarrow> keeps st st2 a"
  by (auto simp: keeps_def split: option.splits)

lemma same_globals_trans: "same_globals st st1 \<Longrightarrow> same_globals st1 st2 \<Longrightarrow> same_globals st st2"
  by (simp add: same_globals_def)

lemma wr_props:
  assumes "a \<noteq> 0"
  shows "\<exists>st'. wr a f st = Inr st' \<and> same_globals st st' \<and> s_tail st' = s_tail st
           \<and> (\<forall>c. c \<noteq> a \<longrightarrow> hdrs st' c = hdrs st c)
           \<and> hdrs st' a = Some (f (case hdrs st a of None \<Rightarrow> zero_Header | Some h \<Rightarrow> h))"
  using assms by (simp add: wr_def same_globals_def)

lemma malloc_found_props:
  assumes "hdrs st block = Some b" and "block \<noteq> 0"
    and "bsize b - req \<le> sizeof_Header \<or> block + req \<noteq> 0"
  shows "\<exists>st'. malloc_found block req st = Inr (block + sizeof_Header, st')
           \<and> same_globals st st'
           \<and> (\<forall>a. a \<noteq> block \<and> (bsize b - req \<le> sizeof_Header \<or> a \<noteq> block + req) \<longrightarrow> keeps st st' a)
           \<and> (req \<noteq> 0 \<longrightarrow>
                (\<exists>y. hdrs st' block = Some y \<and> is_allocated y
                    \<and> (if bsize b - req \<le> sizeof_Header then bsize y = bsize b \<and> nxt y = nxt b
                        else bsize y = req \<and> nxt y = block + req)))"
proof -
  from split_props [OF assms] obtain st1 where
    s: "split_block_if_necessary block req st = Inr st1" and g: "same_globals st st1"
    and k: "\<forall>a. a \<noteq> block \<and> (bsize b - req \<le> sizeof_Header \<or> a \<noteq> block + req) \<longrightarrow> keeps st st1 a"
    and y: "req \<noteq> 0 \<longrightarrow>
                (\<exists>y. hdrs st1 block = Some y \<and> flags y = flags b
                    \<and> (if bsize b - req \<le> sizeof_Header then bsize y = bsize b \<and> nxt y = nxt b
                        else bsize y = req \<and> nxt y = block + req))"
    by blast
  let ?f = "\<lambda>h::Header. h\<lparr>flags := flags h OR ALLOCATED\<rparr>"
  from wr_props [OF assms(2), of ?f st1] obtain st2 where
    w: "wr block ?f st1 = Inr st2" and g2: "same_globals st1 st2"
    and o: "\<forall>c. c \<noteq> block \<longrightarrow> hdrs st2 c = hdrs st1 c"
    and h2: "hdrs st2 block = Some (?f (case hdrs st1 block of None \<Rightarrow> zero_Header | Some h \<Rightarrow> h))"
    by blast
  have al: "is_allocated (?f h)" for h
    by (simp add: is_allocated_def ALLOCATED_def word_bw_assocs)
  have 1: "malloc_found block req st = Inr (block + sizeof_Header, st2)"
    by (simp add: malloc_found_def s w)
  have 2: "same_globals st st2"
    using g g2 by (rule same_globals_trans)
  have 3: "keeps st st2 a" if "a \<noteq> block" "bsize b - req \<le> sizeof_Header \<or> a \<noteq> block + req" for a
  proof -
    from k that have "keeps st st1 a" by blast
    moreover from o that(1) have "keeps st1 st2 a" by (simp add: keeps_def split: option.splits)
    ultimately show ?thesis by (rule keeps_trans)
  qed
  have 4: "\<exists>y. hdrs st2 block = Some y \<and> is_allocated y
                    \<and> (if bsize b - req \<le> sizeof_Header then bsize y = bsize b \<and> nxt y = nxt b
                        else bsize y = req \<and> nxt y = block + req)" if "req \<noteq> 0"
  proof -
    from y that obtain y1 where y1: "hdrs st1 block = Some y1"
      "if bsize b - req \<le> sizeof_Header then bsize y1 = bsize b \<and> nxt y1 = nxt b
                        else bsize y1 = req \<and> nxt y1 = block + req"
      by blast
    show ?thesis
      using h2 y1 al [of y1] by (simp split: if_splits)
  qed
  show ?thesis using 1 2 3 4 by blast
qed

subsection \<open>Well-formed heaps\<close>

lemma wf_heap_facts:
  assumes "wf_heap st bs"
  shows "chain (hdrs st) (s_head st) bs"
    and "tiles (hdrs st) (unat (s_heap st)) bs (unat (brk_of st))"
    and "unat (s_heap st) \<le> unat (brk_of st)"
    and "unat (brk_of st) \<le> unat (s_heap st) + unat (s_heapsize st)"
    and "unat (s_heap st) + unat (s_heapsize st) < 2 ^ 63"
    and "0 < unat (s_heap st)"
    and "brk_of st \<noteq> 0" and "brk_of st \<noteq> - 1"
    and "s_head st \<noteq> 0 \<longrightarrow> s_tail st \<in> set bs"
    and "s_head st = 0 \<longrightarrow> bs = []"
proof -
  from assms show c: "chain (hdrs st) (s_head st) bs"
    and t: "tiles (hdrs st) (unat (s_heap st)) bs (unat (brk_of st))"
    and e: "unat (brk_of st) \<le> unat (s_heap st) + unat (s_heapsize st)"
    and l: "unat (s_heap st) + unat (s_heapsize st) < 2 ^ 63"
    by (simp_all add: wf_heap_def)
  from assms have nz: "s_heap st \<noteq> 0" and la: "last (s_tail st # bs) = s_tail st"
    by (simp_all add: wf_heap_def)
  show le: "unat (s_heap st) \<le> unat (brk_of st)" using t by (rule tiles_le)
  show pos: "0 < unat (s_heap st)" using nz by (simp add: unat_gt_0)
  show "brk_of st \<noteq> 0" using le pos by (metis not_less unat_0)
  show "brk_of st \<noteq> - 1"
  proof
    assume "brk_of st = - 1"
    then have "unat (brk_of st) = 2 ^ 64 - 1"
      by (simp add: unsigned_minus_1_eq_mask mask_eq_exp_minus_1)
    with e l show False by simp
  qed
  show "s_head st \<noteq> 0 \<longrightarrow> s_tail st \<in> set bs"
  proof
    assume "s_head st \<noteq> 0"
    with c have "bs \<noteq> []" by (cases bs) auto
    with la show "s_tail st \<in> set bs" by (metis last.simps last_in_set)
  qed
  show "s_head st = 0 \<longrightarrow> bs = []" using c by (cases bs) auto
qed

lemma remaining_fits:
  fixes heap heapsize brk bsz :: addr
  assumes "unat heap \<le> unat brk" and "unat brk \<le> unat heap + unat heapsize"
    and "unat heap + unat heapsize < 2 ^ 63" and "unat bsz < 2 ^ 63"
  shows "(heapsize - (brk - heap) <s bsz) \<longleftrightarrow> unat heap + unat heapsize < unat brk + unat bsz"
proof -
  have u: "unat (brk - heap) = unat brk - unat heap"
    using assms(1) by (simp add: unat_sub word_le_nat_alt)
  have "brk - heap \<le> heapsize"
    using assms(1,2) u by (simp add: word_le_nat_alt)
  then have r: "unat (heapsize - (brk - heap)) = unat heapsize - (unat brk - unat heap)"
    using u by (simp add: unat_sub)
  have "unat (heapsize - (brk - heap)) < 2 ^ 63"
    using r assms(3) by simp
  then have s1: "sint (heapsize - (brk - heap)) = int (unat (heapsize - (brk - heap)))"
    by (rule sint_small)
  have s2: "sint bsz = int (unat bsz)"
    using assms(4) by (rule sint_small)
  have "(heapsize - (brk - heap) <s bsz) \<longleftrightarrow>
          unat (heapsize - (brk - heap)) < unat bsz"
    unfolding word_sless_alt s1 s2 by (simp only: of_nat_less_iff)
  then show ?thesis
    using r assms(1,2) by auto
qed

lemma wf_block_facts:
  assumes wf: "wf_heap st bs" and a: "a \<in> set bs"
  shows "\<exists>x. hdrs st a = Some x \<and> 32 \<le> unat (bsize x)
           \<and> unat (s_heap st) \<le> unat a \<and> unat a + unat (bsize x) \<le> unat (brk_of st)
           \<and> (nxt x = 0 \<or> (nxt x \<in> set bs \<and> unat (nxt x) = unat a + unat (bsize x)))"
    and "a \<noteq> 0"
proof -
  note c = wf_heap_facts(1) [OF wf] and t = wf_heap_facts(2) [OF wf]
  from tiles_mem [OF t a] obtain x where x: "hdrs st a = Some x" by blast
  have s: "32 \<le> unat (bsize x)"
    using tiles_bounds [OF t a x] by (simp add: sizeof_Header_def)
  show "a \<noteq> 0" using chain_mem [OF c a] by simp
  show "\<exists>x. hdrs st a = Some x \<and> 32 \<le> unat (bsize x)
           \<and> unat (s_heap st) \<le> unat a \<and> unat a + unat (bsize x) \<le> unat (brk_of st)
           \<and> (nxt x = 0 \<or> (nxt x \<in> set bs \<and> unat (nxt x) = unat a + unat (bsize x)))"
    using x s tiles_bounds [OF t a x] chain_tiles_next [OF c t a x] by simp
qed

lemma malloc_wf_found:
  assumes wf: "wf_heap st bs"
    and r: "r \<in> set bs" and x: "hdrs st r = Some x"
    and fits: "req \<le> bsize x" and free: "\<not> is_allocated x"
  shows "chosen st bs req st r x"
proof -
  note t = wf_heap_facts(2) [OF wf]
  from wf_block_facts [OF wf r] x have
    s: "32 \<le> unat (bsize x)" and hi: "unat r + unat (bsize x) \<le> unat (brk_of st)"
    and n: "nxt x = 0 \<or> unat (nxt x) = unat r + unat (bsize x)" and nz: "r \<noteq> 0"
    by auto
  note e = wf_heap_facts(4) [OF wf] and l = wf_heap_facts(5) [OF wf]
  have q: "unat req \<le> unat (bsize x)" using fits by (simp add: word_le_nat_alt)
  have small: "unat r + unat req < 2 ^ 63" using q hi e l by simp
  have sum: "unat (r + req) = unat r + unat req"
    using small by (intro unat_plus_small) simp
  have d: "bsize x - req \<le> sizeof_Header \<or> a \<noteq> r + req" if a: "a \<in> set bs" "a \<noteq> r" for a
  proof (cases "bsize x - req \<le> sizeof_Header")
    case True
    then show ?thesis by simp
  next
    case False
    have "unat (bsize x - req) = unat (bsize x) - unat req"
      using fits by (simp add: unat_sub)
    with False have lt: "unat req < unat (bsize x)"
      by (simp add: word_le_nat_alt sizeof_Header_def)
    from tiles_disjoint [OF t r a(1) _ x] a(2)
    have "unat a < unat r \<or> unat r + unat (bsize x) \<le> unat a" by blast
    with lt sum have "a \<noteq> r + req" by auto
    then show ?thesis by simp
  qed
  show ?thesis
    unfolding chosen_def
    using x nz small fits free d n hi e r
    by (auto simp: keeps_refl is_free_at_def)
qed

lemma malloc_wf_fresh:
  assumes wf: "wf_heap st bs"
    and ok: "\<not> s_heapsize st - (brk_of st - s_heap st) <s (if req < MIN_ALLOC then MIN_ALLOC else req)"
  shows "\<exists>st0 b. alloc_block req st = Inr (brk_of st, st0) \<and> chosen st bs req st0 (brk_of st) b"
proof -
  let ?bsz = "if req < MIN_ALLOC then MIN_ALLOC else req"
  let ?block = "brk_of st"
  note le = wf_heap_facts(3) [OF wf] and e = wf_heap_facts(4) [OF wf]
    and l = wf_heap_facts(5) [OF wf] and b0 = wf_heap_facts(7) [OF wf]
    and b1 = wf_heap_facts(8) [OF wf] and tl = wf_heap_facts(9) [OF wf]
  have below: "unat a < unat ?block" if "a \<in> set bs" for a
    using wf_block_facts(1) [OF wf that] by auto
  have tail: "s_head st \<noteq> 0 \<longrightarrow> s_tail st \<noteq> 0"
    using tl wf_block_facts(2) [OF wf] by blast
  have tail2: "s_head st = 0 \<or> s_tail st \<noteq> ?block"
  proof (cases "s_head st = 0")
    case True
    then show ?thesis by simp
  next
    case False
    with tl have "s_tail st \<in> set bs" by simp
    from below [OF this] show ?thesis by auto
  qed
  from alloc_block_success [OF ok b0 b1 tail] tail2 obtain st0 y where
    ab: "alloc_block req st = Inr (?block, st0)"
    and brk: "s_brk st0 = ?block + ?bsz"
    and g: "s_heap st0 = s_heap st" "s_heapsize st0 = s_heapsize st" "bytes st0 = bytes st"
      "errno st0 = errno st" "stderr_out st0 = stderr_out st"
    and k: "\<forall>a. a \<noteq> ?block \<longrightarrow> keeps st st0 a"
    and y: "hdrs st0 ?block = Some y" "bsize y = ?bsz" "flags y = 0" "nxt y = 0"
    by auto
  have small: "unat ?block < 2 ^ 63" using e l by simp
  have fits: "req \<le> bsize y"
    using y(2) by (simp add: MIN_ALLOC_def word_le_nat_alt word_less_nat_alt)
  have free: "\<not> is_allocated y" using y(3) by (simp add: is_allocated_def)
  have room: "unat ?block + unat ?bsz \<le> unat (s_heap st) + unat (s_heapsize st)"
    if "unat ?bsz < 2 ^ 63"
    using remaining_fits [OF le e l that] ok by simp
  have minroom: "unat ?block + unat req < 2 ^ 63 \<and> unat (?block + req) = unat ?block + unat req"
    if "req < MIN_ALLOC"
  proof -
    from that have q: "unat req < 65536" by (simp add: MIN_ALLOC_def word_less_nat_alt)
    from that have "unat ?bsz = 65536" by (simp add: MIN_ALLOC_def)
    with room have "unat ?block + 65536 \<le> unat (s_heap st) + unat (s_heapsize st)" by simp
    with q l have s: "unat ?block + unat req < 2 ^ 63" by simp
    then have "unat (?block + req) = unat ?block + unat req"
      by (intro unat_plus_small) simp
    with s show ?thesis by simp
  qed
  have nosplit: "bsize y - req \<le> sizeof_Header" if "\<not> req < MIN_ALLOC"
    using that y(2) by simp
  have d: "bsize y - req \<le> sizeof_Header \<or> a \<noteq> ?block + req" if "a \<in> set bs" for a
  proof (cases "req < MIN_ALLOC")
    case True
    from minroom [OF True] below [OF that] have "a \<noteq> ?block + req" by auto
    then show ?thesis by simp
  next
    case False
    then show ?thesis using nosplit by simp
  qed
  have notin: "?block \<notin> set bs"
  proof
    assume "?block \<in> set bs"
    from below [OF this] show False by simp
  qed
  have top: "unat ?block + unat (bsize y) \<le> unat (brk_of st0)
            \<and> unat (brk_of st0) \<le> unat (s_heap st) + unat (s_heapsize st)"
    if "unat req < 2 ^ 63"
  proof -
    have bs: "unat ?bsz < 2 ^ 63" using that by (simp add: MIN_ALLOC_def)
    from room [OF bs] l have "unat ?block + unat ?bsz < 2 ^ 64" by simp
    then have u: "unat (?block + ?bsz) = unat ?block + unat ?bsz"
      by (rule unat_plus_small)
    have "0 < unat ?block" using b0 by (simp add: unat_gt_0)
    with u have "?block + ?bsz \<noteq> 0" by (metis add_gr_0 unat_gt_0)
    then have "brk_of st0 = ?block + ?bsz" using brk by (simp add: brk_of_def)
    with u room [OF bs] y(2) show ?thesis by simp
  qed
  have "chosen st bs req st0 ?block y"
    unfolding chosen_def
    using y(1,4) b0 small fits free minroom nosplit d k notin top g
    by (cases "req < MIN_ALLOC") auto
  with ab show ?thesis by blast
qed

text \<open>
  On a well-formed heap \<open>malloc\<close> either fails, leaving all but \<open>errno\<close> and the
  initialised break as they were, or settles on a block and goes on to split and mark it.
\<close>

lemma malloc_wf_cases:
  assumes wf: "wf_heap st bs"
  shows "(allocation_fails n st
          \<and> malloc n st = Some (Inr (0, st\<lparr>s_brk := brk_of st, errno := ENOMEM\<rparr>)))
       \<or> (\<not> allocation_fails n st
          \<and> (\<exists>st0 block b. malloc n st = Some (malloc_found block (required_size n) st0)
                \<and> chosen st bs (required_size n) st0 block b))"
proof -
  let ?req = "required_size n"
  let ?bsz = "if ?req < MIN_ALLOC then MIN_ALLOC else ?req"
  from malloc_search_chain [OF wf_heap_facts(1) [OF wf], of ?req] obtain r where
    s: "malloc_search st ?req (s_head st) = Some (Inr r)"
    and r: "r = 0 \<or> (r \<in> set bs \<and> (\<exists>x. hdrs st r = Some x \<and> ?req \<le> bsize x \<and> \<not> is_allocated x))"
    by blast
  have m: "malloc n st =
      (if r = 0
       then (case alloc_block ?req st of
               Inl e \<Rightarrow> Some (Inl e)
             | Inr (block, st1) \<Rightarrow>
                 if block = 0 then Some (Inr (0, st1\<lparr>errno := ENOMEM\<rparr>))
                 else Some (malloc_found block ?req st1))
       else Some (malloc_found r ?req st))"
    unfolding malloc_def Let_def required_size_def [symmetric] by (simp add: s)
  show ?thesis
  proof (cases "r = 0")
    case False
    with r obtain x where x: "r \<in> set bs" "hdrs st r = Some x" "?req \<le> bsize x" "\<not> is_allocated x"
      by blast
    have "chosen st bs ?req st r x"
      using wf x by (rule malloc_wf_found)
    moreover have "\<not> allocation_fails n st"
      using s False by (simp add: allocation_fails_def)
    moreover have "malloc n st = Some (malloc_found r ?req st)"
      using m False by simp
    ultimately show ?thesis by blast
  next
    case True
    show ?thesis
    proof (cases "s_heapsize st - (brk_of st - s_heap st) <s ?bsz")
      case fail: True
      have "alloc_block ?req st = Inr (0, st\<lparr>s_brk := brk_of st, errno := ENOMEM\<rparr>)"
        using fail by (rule alloc_block_fail)
      then have "malloc n st = Some (Inr (0, st\<lparr>s_brk := brk_of st, errno := ENOMEM\<rparr>))"
        using m True by simp
      moreover have "allocation_fails n st"
        using s True fail by (simp add: allocation_fails_def extension_size_def sbrk_eq)
      ultimately show ?thesis by blast
    next
      case ok: False
      from malloc_wf_fresh [OF wf ok] obtain st0 b where
        ab: "alloc_block ?req st = Inr (brk_of st, st0)"
        and ch: "chosen st bs ?req st0 (brk_of st) b"
        by blast
      have "malloc n st = Some (malloc_found (brk_of st) ?req st0)"
        using m True ab wf_heap_facts(7) [OF wf] by simp
      moreover have "\<not> allocation_fails n st"
        using ok wf_heap_facts(8) [OF wf]
        by (simp add: allocation_fails_def extension_size_def sbrk_eq)
      ultimately show ?thesis using ch by blast
    qed
  qed
qed

lemma chosen_malloc_found:
  assumes ch: "chosen st bs req st0 block b"
  shows "\<exists>st'. malloc_found block req st0 = Inr (block + sizeof_Header, st')
           \<and> same_globals st0 st'
           \<and> block + sizeof_Header \<noteq> 0
           \<and> (\<forall>a\<in>set bs. a \<noteq> block \<longrightarrow> keeps st st' a)
           \<and> (req \<noteq> 0 \<longrightarrow>
                (\<exists>y. hdrs st' block = Some y \<and> is_allocated y
                    \<and> (if bsize b - req \<le> sizeof_Header then bsize y = bsize b \<and> nxt y = nxt b
                        else bsize y = req \<and> nxt y = block + req)))"
proof -
  from ch have b: "hdrs st0 block = Some b" and nz: "block \<noteq> 0" and sm: "unat block < 2 ^ 63"
    and ex: "bsize b - req \<le> sizeof_Header \<or> unat block + unat req < 2 ^ 63"
    and fr: "\<forall>a\<in>set bs. a \<noteq> block \<longrightarrow>
            keeps st st0 a \<and> (bsize b - req \<le> sizeof_Header \<or> a \<noteq> block + req)"
    by (simp_all add: chosen_def)
  have e0: "bsize b - req \<le> sizeof_Header \<or> block + req \<noteq> 0"
  proof (cases "bsize b - req \<le> sizeof_Header")
    case True
    then show ?thesis by simp
  next
    case False
    with ex have lt: "unat block + unat req < 2 ^ 63" by simp
    then have "unat (block + req) = unat block + unat req"
      by (intro unat_plus_small) simp
    moreover have "0 < unat block" using nz by (simp add: unat_gt_0)
    ultimately have "block + req \<noteq> 0" by (metis add_gr_0 unat_gt_0)
    then show ?thesis by simp
  qed
  have q: "block + sizeof_Header \<noteq> 0"
  proof -
    have "unat (block + sizeof_Header) = unat block + unat sizeof_Header"
      using sm by (intro unat_plus_small) (simp add: sizeof_Header_def)
    then have "0 < unat (block + sizeof_Header)" by (simp add: sizeof_Header_def)
    then show ?thesis by (simp add: unat_gt_0)
  qed
  from malloc_found_props [OF b nz e0] obtain st' where
    1: "malloc_found block req st0 = Inr (block + sizeof_Header, st')"
    and 2: "same_globals st0 st'"
    and 3: "\<forall>a. a \<noteq> block \<and> (bsize b - req \<le> sizeof_Header \<or> a \<noteq> block + req) \<longrightarrow> keeps st0 st' a"
    and 4: "req \<noteq> 0 \<longrightarrow>
                (\<exists>y. hdrs st' block = Some y \<and> is_allocated y
                    \<and> (if bsize b - req \<le> sizeof_Header then bsize y = bsize b \<and> nxt y = nxt b
                        else bsize y = req \<and> nxt y = block + req))"
    by blast
  have 5: "keeps st st' a" if "a \<in> set bs" "a \<noteq> block" for a
  proof -
    from fr that have "keeps st st0 a" "bsize b - req \<le> sizeof_Header \<or> a \<noteq> block + req"
      by blast+
    moreover from this(2) 3 that(2) have "keeps st0 st' a" by blast
    ultimately show ?thesis by (blast intro: keeps_trans)
  qed
  show ?thesis using 1 2 q 4 5 by blast
qed

subsection \<open>What freeing changes\<close>

lemma pres_refl: "pres st st"
  by (simp add: pres_def)

lemma pres_trans: "pres st st1 \<Longrightarrow> pres st1 st2 \<Longrightarrow> pres st st2"
  unfolding pres_def by (elim conjE, intro conjI allI impI; (simp; fail)?) metis

lemma pres_tail: "pres st (st\<lparr>s_tail := t\<rparr>)"
  by (simp add: pres_def)

lemma wr_pres:
  assumes "wr a f st = Inr st'" and "\<And>h. flags (f h) = flags h"
  shows "pres st st'"
  using assms by (auto simp: wr_def pres_def split: if_splits)

lemma bindE_Inr_iff: "bindE m f = Inr y \<longleftrightarrow> (\<exists>x. m = Inr x \<and> f x = Inr y)"
  by (cases m) simp_all

lemma rd_Inr_iff: "rd a st = Inr h \<longleftrightarrow> hdrs st a = Some h"
  by (simp add: rd_def split: option.splits)

lemma coalesce_steps:
  assumes "coalesce_if_necessary block st = Inr st'"
  shows "st' = st
       \<or> (\<exists>(b :: Header) (s :: Header) (b1 :: Header) (s1 :: Header) (s2 :: Header) st1 st2.
            hdrs st block = Some b \<and> hdrs st (nxt b) = Some s
            \<and> wr block (\<lambda>h. h\<lparr>bsize := bsize h + bsize s\<rparr>) st = Inr st1
            \<and> hdrs st1 block = Some b1
            \<and> (if nxt s1 \<noteq> 0
                then wr (nxt b1) (\<lambda>h. h\<lparr>prev := block\<rparr>) st1
                else Inr (st1\<lparr>s_tail := block\<rparr>)) = Inr st2
            \<and> wr block (\<lambda>h. h\<lparr>nxt := nxt s2\<rparr>) st2 = Inr st')"
proof -
  from assms obtain b where b: "hdrs st block = Some b"
    and 1: "(if is_allocated b \<or> nxt b = 0 then Inr st
       else
       bindE (rd (nxt b) st) (\<lambda>s.
       if is_allocated s then Inr st
       else
         bindE (wr block (\<lambda>h. h\<lparr>bsize := bsize h + bsize s\<rparr>) st) (\<lambda>st1.
         bindE (rd block st1) (\<lambda>b1.
         bindE (rd (nxt b1) st1) (\<lambda>s1.
         bindE (if nxt s1 \<noteq> 0
                then wr (nxt b1) (\<lambda>h. h\<lparr>prev := block\<rparr>) st1
                else Inr (st1\<lparr>s_tail := block\<rparr>)) (\<lambda>st2.
         bindE (rd block st2) (\<lambda>b2.
         bindE (rd (nxt b2) st2) (\<lambda>s2.
         wr block (\<lambda>h. h\<lparr>nxt := nxt s2\<rparr>) st2)))))))) = Inr st'"
    unfolding coalesce_if_necessary_def bindE_Inr_iff rd_Inr_iff by blast
  show ?thesis
  proof (cases "is_allocated b \<or> nxt b = 0")
    case True
    with 1 show ?thesis by simp
  next
    case False
    with 1 obtain s where s: "hdrs st (nxt b) = Some s"
      and 2: "(if is_allocated s then Inr st
       else
         bindE (wr block (\<lambda>h. h\<lparr>bsize := bsize h + bsize s\<rparr>) st) (\<lambda>st1.
         bindE (rd block st1) (\<lambda>b1.
         bindE (rd (nxt b1) st1) (\<lambda>s1.
         bindE (if nxt s1 \<noteq> 0
                then wr (nxt b1) (\<lambda>h. h\<lparr>prev := block\<rparr>) st1
                else Inr (st1\<lparr>s_tail := block\<rparr>)) (\<lambda>st2.
         bindE (rd block st2) (\<lambda>b2.
         bindE (rd (nxt b2) st2) (\<lambda>s2.
         wr block (\<lambda>h. h\<lparr>nxt := nxt s2\<rparr>) st2))))))) = Inr st'"
      by (simp add: bindE_Inr_iff rd_Inr_iff) blast
    show ?thesis
    proof (cases "is_allocated s")
      case True
      with 2 show ?thesis by simp
    next
      case False
      with 2 obtain st1 st2 :: state and b1 s1 s2 :: Header where
        "wr block (\<lambda>h. h\<lparr>bsize := bsize h + bsize s\<rparr>) st = Inr st1"
        "hdrs st1 block = Some b1"
        "(if nxt s1 \<noteq> 0
                then wr (nxt b1) (\<lambda>h. h\<lparr>prev := block\<rparr>) st1
                else Inr (st1\<lparr>s_tail := block\<rparr>)) = Inr st2"
        "wr block (\<lambda>h. h\<lparr>nxt := nxt s2\<rparr>) st2 = Inr st'"
        by (simp add: bindE_Inr_iff rd_Inr_iff) blast
      with b s show ?thesis by blast
    qed
  qed
qed

lemma coalesce_pres:
  assumes "coalesce_if_necessary block st = Inr st'"
  shows "pres st st'"
proof -
  from coalesce_steps [OF assms]
  consider "st' = st"
    | st1 st2 :: state and b1 s s1 s2 :: Header where
      "wr block (\<lambda>h. h\<lparr>bsize := bsize h + bsize s\<rparr>) st = Inr st1"
      "(if nxt s1 \<noteq> 0
                then wr (nxt b1) (\<lambda>h. h\<lparr>prev := block\<rparr>) st1
                else Inr (st1\<lparr>s_tail := block\<rparr>)) = Inr st2"
      "wr block (\<lambda>h. h\<lparr>nxt := nxt s2\<rparr>) st2 = Inr st'"
    by blast
  then show ?thesis
  proof cases
    case 1
    then show ?thesis by (simp add: pres_refl)
  next
    case 2
    have p1: "pres st st1" using 2(1) by (rule wr_pres) simp
    have p2: "pres st1 st2"
    proof (cases "nxt s1 \<noteq> 0")
      case True
      with 2(2) have "wr (nxt b1) (\<lambda>h. h\<lparr>prev := block\<rparr>) st1 = Inr st2" by simp
      then show ?thesis by (rule wr_pres) simp
    next
      case False
      with 2(2) show ?thesis by (auto simp: pres_tail)
    qed
    have p3: "pres st2 st'" using 2(3) by (rule wr_pres) simp
    from p1 p2 p3 show ?thesis by (blast intro: pres_trans)
  qed
qed

lemma wr_other:
  assumes "wr a f st = Inr st'"
  shows "a \<noteq> 0 \<and> (\<forall>c. c \<noteq> a \<longrightarrow> hdrs st' c = hdrs st c)
         \<and> (\<forall>x. hdrs st a = Some x \<longrightarrow> hdrs st' a = Some (f x))"
  using assms by (auto simp: wr_def split: if_splits)

lemma coalesce_prev:
  assumes c: "coalesce_if_necessary block st = Inr st'"
    and z: "hdrs st 0 = None" and x: "hdrs st block = Some x" and n: "nxt x \<noteq> block"
  shows "hdrs st' 0 = None \<and> (\<exists>y. hdrs st' block = Some y \<and> prev y = prev x)"
proof -
  from coalesce_steps [OF c]
  consider "st' = st"
    | st1 st2 :: state and b1 s s1 s2 :: Header where
      "wr block (\<lambda>h. h\<lparr>bsize := bsize h + bsize s\<rparr>) st = Inr st1"
      "hdrs st1 block = Some b1"
      "(if nxt s1 \<noteq> 0
                then wr (nxt b1) (\<lambda>h. h\<lparr>prev := block\<rparr>) st1
                else Inr (st1\<lparr>s_tail := block\<rparr>)) = Inr st2"
      "wr block (\<lambda>h. h\<lparr>nxt := nxt s2\<rparr>) st2 = Inr st'"
    by blast
  then show ?thesis
  proof cases
    case 1
    with z x show ?thesis by simp
  next
    case 2
    from wr_other [OF 2(1)] z x have nz: "block \<noteq> 0" and z1: "hdrs st1 0 = None"
      and h1: "hdrs st1 block = Some (x\<lparr>bsize := bsize x + bsize s\<rparr>)"
      by auto
    from h1 2(2) have b1: "nxt b1 = nxt x" "prev b1 = prev x" by auto
    have s2: "hdrs st2 0 = None \<and> hdrs st2 block = Some b1"
    proof (cases "nxt s1 \<noteq> 0")
      case True
      with 2(3) have w: "wr (nxt b1) (\<lambda>h. h\<lparr>prev := block\<rparr>) st1 = Inr st2" by simp
      from wr_other [OF w] z1 2(2) b1(1) n show ?thesis by auto
    next
      case False
      with 2(3) z1 2(2) show ?thesis by auto
    qed
    from wr_other [OF 2(4)] s2 b1(2) show ?thesis by auto
  qed
qed

lemma free_allocated:
  assumes f: "free p st = Inr st'" and p: "p \<noteq> 0"
    and b: "hdrs st (p - sizeof_Header) = Some b" and al: "is_allocated b"
  shows "bytes st' = bytes st \<and> s_brk st' = s_brk st \<and> s_heap st' = s_heap st
         \<and> s_heapsize st' = s_heapsize st \<and> errno st' = errno st
         \<and> stderr_out st' = stderr_out st
         \<and> is_free_at (hdrs st') (p - sizeof_Header)"
proof -
  let ?block = "p - sizeof_Header"
  let ?f = "\<lambda>h::Header. h\<lparr>flags := flags h AND NOT ALLOCATED\<rparr>"
  have rb: "rd ?block st = Inr b" using b by (simp add: rd_def)
  from f p rb al obtain st1 st2 :: state and b2 :: Header where
    w: "wr ?block ?f st = Inr st1"
    and c1: "coalesce_if_necessary ?block st1 = Inr st2"
    and c2: "coalesce_if_necessary (prev b2) st2 = Inr st'"
    unfolding free_def Let_def by (simp add: bindE_Inr_iff) blast
  from w b have g1: "bytes st1 = bytes st" "s_brk st1 = s_brk st" "s_heap st1 = s_heap st"
    "s_heapsize st1 = s_heapsize st" "errno st1 = errno st" "stderr_out st1 = stderr_out st"
    and h1: "hdrs st1 ?block = Some (?f b)"
    by (auto simp: wr_def split: if_splits)
  have "pres st1 st'"
    using coalesce_pres [OF c1] coalesce_pres [OF c2] by (rule pres_trans)
  then have g2: "bytes st' = bytes st1" "s_brk st' = s_brk st1" "s_heap st' = s_heap st1"
    "s_heapsize st' = s_heapsize st1" "errno st' = errno st1" "stderr_out st' = stderr_out st1"
    and fl: "\<forall>a x. hdrs st1 a = Some x \<longrightarrow> (\<exists>y. hdrs st' a = Some y \<and> flags y = flags x)"
    by (simp_all add: pres_def)
  from fl h1 obtain y where y: "hdrs st' ?block = Some y" "flags y = flags (?f b)" by blast
  have "\<not> is_allocated y"
    using y(2) by (simp add: is_allocated_def ALLOCATED_def word_bw_assocs)
  then show ?thesis
    using g1 g2 y(1) by (simp add: is_free_at_def)
qed


text \<open>
  A block whose \<open>prev\<close> is null cannot be freed: after the successor has been tried,
  \<open>coalesce_if_necessary\<close> is called on the null pointer.
\<close>

lemma free_null_prev:
  assumes p: "p \<noteq> 0" and b: "hdrs st (p - sizeof_Header) = Some b" and al: "is_allocated b"
    and pr: "prev b = 0" and n: "nxt b \<noteq> p - sizeof_Header" and z: "hdrs st 0 = None"
  shows "free p st = Inl Segfault"
proof -
  let ?block = "p - sizeof_Header"
  let ?f = "\<lambda>h::Header. h\<lparr>flags := flags h AND NOT ALLOCATED\<rparr>"
  have nz: "?block \<noteq> 0" using b z by auto
  from wr_props [OF nz, of ?f st] b obtain st1 where
    w: "wr ?block ?f st = Inr st1"
    and o: "\<forall>c. c \<noteq> ?block \<longrightarrow> hdrs st1 c = hdrs st c"
    and h1: "hdrs st1 ?block = Some (?f b)"
    by auto
  from o nz z have z1: "hdrs st1 0 = None" by (metis)
  have fr: "free p st =
      bindE (coalesce_if_necessary ?block st1) (\<lambda>st2.
      bindE (rd ?block st2) (\<lambda>b2. coalesce_if_necessary (prev b2) st2))"
    using p b al w by (simp add: free_def Let_def rd_def)
  show ?thesis
  proof (cases "coalesce_if_necessary ?block st1")
    case (Inl e)
    then show ?thesis unfolding fr by (cases e) simp
  next
    case (Inr st2)
    from coalesce_prev [OF Inr z1 h1] n obtain y where
      z2: "hdrs st2 0 = None" and y: "hdrs st2 ?block = Some y" "prev y = prev (?f b)"
      by auto
    have "coalesce_if_necessary 0 st2 = Inl Segfault"
      using z2 by (simp add: coalesce_if_necessary_def rd_def)
    then show ?thesis
      unfolding fr using Inr y pr by (simp add: rd_def)
  qed
qed

subsection \<open>Failing allocations and wrapped products\<close>

lemma alloc_block_fails:
  "fst (sbrk (if bs0 < MIN_ALLOC then MIN_ALLOC else bs0) st) = - 1 \<Longrightarrow>
     alloc_block bs0 st = Inr (0, snd (sbrk (if bs0 < MIN_ALLOC then MIN_ALLOC else bs0) st))"
  by (simp add: alloc_block_def Let_def case_prod_beta)

lemma malloc_fails:
  assumes "allocation_fails sz st"
  shows "malloc sz st = Some (Inr (0, (snd (sbrk (extension_size sz) st))\<lparr>errno := ENOMEM\<rparr>))"
proof -
  from assms have s: "malloc_search st (required_size sz) (s_head st) = Some (Inr 0)"
    and f: "fst (sbrk (extension_size sz) st) = - 1"
    by (simp_all add: allocation_fails_def)
  have a: "alloc_block (required_size sz) st = Inr (0, snd (sbrk (extension_size sz) st))"
    unfolding extension_size_def using f [unfolded extension_size_def]
    by (rule alloc_block_fails)
  show ?thesis
    unfolding malloc_def Let_def required_size_def [symmetric]
    by (simp add: s a)
qed



section \<open>The mode switch happens once, between priming and the real initializer\<close>

text \<open>
  C1.  In every run of the interception entry point the SECCOMP call is issued at most
  once, and where the target's real pre-init hook runs, the call has been issued before
  it and is not issued after it.  When the heap is reserved and the real entry symbol
  resolved, the call is issued exactly once: every priming step (the two sentinel
  lines with their flushes, the switch of standard input to non-blocking, the read of
  one character, its push-back when one was read, the restoring of the flags) comes
  before it, the real pre-init hook does not, and the call is not repeated.  If the
  call fails, the very next event is \<open>_exit(SECCOMP_FAILED)\<close> and the process has ended;
  otherwise the very next event is the real pre-init hook.
\<close>

theorem seccomp_once_before_init:
  "(let t = fst (libc_start_main w) in
      count_list t Prctl_seccomp \<le> 1
      \<and> (Real_init \<in> set t \<longrightarrow>
           Prctl_seccomp \<in> set (before Real_init t) \<and> Prctl_seccomp \<notin> set (after Real_init t))
      \<and> (setup_ok w \<longrightarrow>
           count_list t Prctl_seccomp = 1
           \<and> set (priming w) \<subseteq> set (before Prctl_seccomp t)
           \<and> (fgetc_result w \<noteq> EOF \<longrightarrow>
                 Ungetc_stdin (fgetc_result w) \<in> set (before Prctl_seccomp t))
           \<and> Real_init \<notin> set (before Prctl_seccomp t)
           \<and> Prctl_seccomp \<notin> set (after Prctl_seccomp t)
           \<and> (prctl_result w = - 1 \<longrightarrow>
                 after Prctl_seccomp t = [Underscore_exit SECCOMP_FAILED]
                 \<and> snd (libc_start_main w) = None)
           \<and> (prctl_result w \<noteq> - 1 \<longrightarrow>
                 take 1 (after Prctl_seccomp t) = [Real_init])))"
  by (simp add: startup_defs split: option.split)

theorem seccomp_once_before_init_witness:
  "setup_ok world_ok \<and> prctl_result world_ok \<noteq> - 1 \<and> fgetc_result world_ok \<noteq> EOF
   \<and> Real_init \<in> set (fst (libc_start_main world_ok))
   \<and> count_list (fst (libc_start_main world_ok)) Prctl_seccomp = 1
   \<and> Prctl_seccomp \<in> set (before Real_init (fst (libc_start_main world_ok)))
   \<and> take 1 (after Prctl_seccomp (fst (libc_start_main world_ok))) = [Real_init]
   \<and> setup_ok world_seccomp_fails \<and> prctl_result world_seccomp_fails = - 1
   \<and> after Prctl_seccomp (fst (libc_start_main world_seccomp_fails))
       = [Underscore_exit SECCOMP_FAILED]
   \<and> snd (libc_start_main world_seccomp_fails) = None"
  using seccomp_once_before_init [of world_ok] seccomp_once_before_init [of world_seccomp_fails]
  by (simp add: startup_defs world_ok_def world_seccomp_fails_def)

section \<open>Setup failures\<close>

text \<open>
  The failures the code does catch: the mapping, the opening of the C library and the
  SECCOMP call each end the process at once through \<open>_exit\<close>, and the four statuses
  differ.
\<close>

lemma setup_failure_exits:
  "(mmap_result w = MAP_FAILED \<longrightarrow>
      libc_start_main w =
        ([Getenv_heapsize,
          Mmap (case heapenv w of None \<Rightarrow> DEFAULT_HEAP_SIZE | Some v \<Rightarrow> v),
          Underscore_exit MMAP_FAILED], None))
   \<and> (mmap_result w \<noteq> MAP_FAILED \<and> dlopen_result w = 0 \<longrightarrow>
      libc_start_main w =
        ([Getenv_heapsize,
          Mmap (case heapenv w of None \<Rightarrow> DEFAULT_HEAP_SIZE | Some v \<Rightarrow> v),
          Dlopen_libc, Underscore_exit DLOPEN_FAILED], None))
   \<and> (setup_ok w \<and> prctl_result w = - 1 \<longrightarrow>
        snd (libc_start_main w) = None
        \<and> last (fst (libc_start_main w)) = Underscore_exit SECCOMP_FAILED)"
  by (simp add: startup_defs split: option.split)

lemma exit_statuses_distinct:
  "distinct [DLOPEN_FAILED, SECCOMP_FAILED, EXIT_FAILED, MMAP_FAILED]"
  by (simp add: DLOPEN_FAILED_def SECCOMP_FAILED_def EXIT_FAILED_def MMAP_FAILED_def)

text \<open>
  C8.  The result of \<open>dlsym\<close> is not tested.  When the C library opens but the lookup
  of \<open>__libc_start_main\<close> yields null, the process does not leave through
  \<open>_exit(DLOPEN_FAILED)\<close>: it calls through the null pointer.
\<close>

theorem dlsym_failure_unchecked:
  "libc_start_main world_dlsym_null =
     ([Getenv_heapsize, Mmap DEFAULT_HEAP_SIZE, Dlopen_libc, Dlsym_libc_start_main, Null_call],
      None)
   \<and> Underscore_exit DLOPEN_FAILED \<notin> set (fst (libc_start_main world_dlsym_null))"
  by (simp add: startup_defs world_dlsym_null_def world_ok_def)

section \<open>free\<close>

text \<open>
  C7.  \<open>free(null)\<close> returns with the state as it was.  When the header in front of a
  non-null \<open>p\<close> is not marked allocated, \<open>free(p)\<close> returns too, and the state it
  leaves differs from the one it found in one thing only: the line naming \<open>p\<close> has been
  added to standard error.  The headers, the list ends, the break and the payload are
  untouched.
\<close>

theorem free_null_and_invalid:
  "free 0 st = Inr st
   \<and> (p \<noteq> 0 \<and> hdrs st (p - sizeof_Header) = Some b \<and> \<not> is_allocated b \<longrightarrow>
        free p st = Inr (st\<lparr>stderr_out := stderr_out st @ [Invalid_free p]\<rparr>))"
  by (simp add: free_def rd_def bindE_def)

theorem free_null_and_invalid_witness:
  "(let st = state_after [Malloc 1, Malloc 1, Free 1048672] (heap0 1048576 8388608) in
     run [Malloc 1, Malloc 1, Free 1048672] (heap0 1048576 8388608) = Some (Inr st)
     \<and> (1048672::addr) \<noteq> 0
     \<and> hdrs st (1048672 - sizeof_Header)
         = Some \<lparr>prev = 1048576, nxt = 0, bsize = 65472, flags = 0\<rparr>
     \<and> \<not> is_allocated \<lparr>prev = 1048576, nxt = 0, bsize = 65472, flags = 0\<rparr>
     \<and> free 1048672 st = Inr (st\<lparr>stderr_out := [Invalid_free 1048672]\<rparr>))"
  using free_null_and_invalid
    [of "state_after [Malloc 1, Malloc 1, Free 1048672] (heap0 1048576 8388608)"
        1048672 "\<lparr>prev = 1048576, nxt = 0, bsize = 65472, flags = 0\<rparr>"]
  by (simp add: eval_simps)

text \<open>
  C5.  The first block of the list has no predecessor: its \<open>prev\<close> is null.  Freeing
  it clears the flag, tries the successor, and then hands the null \<open>prev\<close> to
  \<open>coalesce_if_necessary\<close>, which reads the flags through it.  On the empty heap of
  8 MiB, \<open>malloc(1)\<close> returns 1048608, the block in front of it is the first of the
  list, and \<open>free(1048608)\<close> does not return.  (Lemma \<open>free_null_prev\<close> shows
  the fault for every allocated block whose \<open>prev\<close> is null.)
\<close>

theorem free_first_block_faults:
  "malloc 1 (heap0 1048576 8388608)
     = Some (Inr (1048608, state_after [Malloc 1] (heap0 1048576 8388608)))
   \<and> hdrs (state_after [Malloc 1] (heap0 1048576 8388608)) (1048608 - sizeof_Header)
       = Some \<lparr>prev = 0, nxt = 1048640, bsize = 64, flags = 1\<rparr>
   \<and> free 1048608 (state_after [Malloc 1] (heap0 1048576 8388608)) = Inl Segfault"
  by (simp add: eval_simps)

text \<open>
  C2.  When \<open>coalesce_if_necessary\<close> absorbs a successor that is not the tail, it
  stores the block's address in the successor's \<open>prev\<close>, not in the \<open>prev\<close> of the
  block after the successor, which goes on pointing at the absorbed header.  After
  the second free below the block at 1048640 has absorbed the one at 1048704, and the
  block at 1048768 still names 1048704 as its predecessor.  The third free then
  merges into that stale header, and returns with the blocks at 1048640 and 1048768
  both in the list, both free, and adjacent.
\<close>

theorem adjacent_free_after_free:
  "run free_middle_calls (heap0 1048576 8388608)
     = Some (Inr (state_after free_middle_calls (heap0 1048576 8388608)))
   \<and> chain (hdrs (state_after free_middle_calls (heap0 1048576 8388608)))
            (s_head (state_after free_middle_calls (heap0 1048576 8388608)))
            [1048576, 1048640, 1048768, 1048832, 1048896]
   \<and> \<not> no_adjacent_free (hdrs (state_after free_middle_calls (heap0 1048576 8388608)))
            [1048576, 1048640, 1048768, 1048832, 1048896]"
  by (simp add: eval_simps free_middle_calls_def)

text \<open>
  C4.  The same stale \<open>prev\<close> pointer makes the third free below store the absorbed
  header's address in \<open>s_tail\<close>.  The allocation that follows extends the heap and
  links the new block behind that header, out of reach from \<open>s_head\<close>: the blocks of
  the list add up to 65536 bytes while the break has advanced by 165568.
\<close>

theorem sizes_differ_from_break:
  "run free_then_extend_calls (heap0 1048576 8388608)
     = Some (Inr (state_after free_then_extend_calls (heap0 1048576 8388608)))
   \<and> chain (hdrs (state_after free_then_extend_calls (heap0 1048576 8388608)))
            (s_head (state_after free_then_extend_calls (heap0 1048576 8388608)))
            [1048576, 1048640, 1048768]
   \<and> sum_sizes (hdrs (state_after free_then_extend_calls (heap0 1048576 8388608)))
        [1048576, 1048640, 1048768] = 65536
   \<and> advanced (state_after free_then_extend_calls (heap0 1048576 8388608)) = 165568"
  by (simp add: eval_simps free_then_extend_calls_def)

section \<open>malloc\<close>

text \<open>
  C3, as stated, fails for requests near the top of the range of \<open>size_t\<close>: the sum
  \<open>size + sizeof(struct Header)\<close> wraps around.  On the empty heap of 8 MiB,
  \<open>malloc(2 ^ 64 - 1)\<close> returns the non-null address 1048608 and leaves \<open>errno\<close>
  alone, while the block in front of it is 32 bytes long: it ends where the returned
  region begins, and not one of the requested bytes is usable.
\<close>

theorem malloc_wraps_counterexample:
  "malloc (- 1) (heap0 1048576 8388608)
     = Some (Inr (1048608, state_after [Malloc (- 1)] (heap0 1048576 8388608)))
   \<and> hdrs (state_after [Malloc (- 1)] (heap0 1048576 8388608)) (1048608 - sizeof_Header)
       = Some \<lparr>prev = 0, nxt = 1048608, bsize = 32, flags = 1\<rparr>
   \<and> errno (state_after [Malloc (- 1)] (heap0 1048576 8388608)) = 0
   \<and> block_end (hdrs (state_after [Malloc (- 1)] (heap0 1048576 8388608))) 1048576 - unat (1048608 :: addr) = 0
   \<and> unat (- 1 :: addr) = 18446744073709551615"
  by (simp add: eval_simps unsigned_minus_1_eq_mask mask_eq_exp_minus_1)

text \<open>
  From \<open>2 ^ 63 - 63\<close> bytes on, the rounded block size read as an \<open>intptr_t\<close> is
  negative, and \<open>sbrk\<close> accepts every negative increment: \<open>malloc(2 ^ 63)\<close> on the same
  heap returns a block whose header claims \<open>2 ^ 63 + 32\<close> bytes, far beyond the region.
\<close>

lemma malloc_negative_increment:
  "malloc (2 ^ 63) (heap0 1048576 8388608)
     = Some (Inr (1048608, state_after [Malloc (2 ^ 63)] (heap0 1048576 8388608)))
   \<and> hdrs (state_after [Malloc (2 ^ 63)] (heap0 1048576 8388608)) 1048576
       = Some \<lparr>prev = 0, nxt = 0, bsize = 9223372036854775840, flags = 1\<rparr>
   \<and> s_brk (state_after [Malloc (2 ^ 63)] (heap0 1048576 8388608)) = 9223372036855824416"
  by (simp add: eval_simps)

text \<open>
  C3, amended.  On a well-formed heap, for every request of at most \<open>2 ^ 63 - 64\<close>
  bytes, \<open>malloc\<close> returns.  When the first-fit search finds no block and the break
  cannot be advanced, and only then, it returns null, and the state differs from the
  one it found in \<open>errno\<close>, now \<open>ENOMEM\<close>, and in the break being initialised.
  Otherwise it returns a non-null address; the header in front of it is marked
  allocated and its size is at least the request plus the header, the block ends
  where the next block of the list begins, or has no successor, and it ends at or
  below the break, which lies within the reserved region.
\<close>

theorem malloc_result:
  assumes wf: "wf_heap st bs" and n: "unat n + 64 \<le> 2 ^ 63"
  shows "case malloc n st of
           Some (Inr (q, st')) \<Rightarrow>
             if allocation_fails n st
             then q = 0 \<and> st' = st\<lparr>s_brk := brk_of st, errno := ENOMEM\<rparr>
             else q \<noteq> 0 \<and>
               (case hdrs st' (q - sizeof_Header) of
                  None \<Rightarrow> False
                | Some y \<Rightarrow>
                    is_allocated y
                    \<and> unat n + unat sizeof_Header \<le> unat (bsize y)
                    \<and> (nxt y = 0 \<or> unat (nxt y) = unat (q - sizeof_Header) + unat (bsize y))
                    \<and> unat (q - sizeof_Header) + unat (bsize y) \<le> unat (brk_of st')
                    \<and> unat (brk_of st') \<le> unat (s_heap st') + unat (s_heapsize st'))
         | _ \<Rightarrow> False"
proof -
  let ?req = "required_size n"
  from malloc_wf_cases [OF wf, of n]
  consider (fail) "allocation_fails n st"
      "malloc n st = Some (Inr (0, st\<lparr>s_brk := brk_of st, errno := ENOMEM\<rparr>))"
    | (ok) st0 block b where "\<not> allocation_fails n st"
      "malloc n st = Some (malloc_found block ?req st0)" "chosen st bs ?req st0 block b"
    by blast
  then show ?thesis
  proof cases
    case fail
    then show ?thesis by simp
  next
    case ok
    note rb = required_size_bounds [OF n]
    have req0: "?req \<noteq> 0" using rb(1) by (metis add_is_0 unat_0 le_zero_eq zero_neq_numeral)
    have reqs: "unat ?req < 2 ^ 63" using rb(2) n by simp
    from chosen_malloc_found [OF ok(3)] req0 obtain st' y where
      mf: "malloc_found block ?req st0 = Inr (block + sizeof_Header, st')"
      and g: "same_globals st0 st'" and q: "block + sizeof_Header \<noteq> 0"
      and y: "hdrs st' block = Some y" "is_allocated y"
        "if bsize b - ?req \<le> sizeof_Header then bsize y = bsize b \<and> nxt y = nxt b
         else bsize y = ?req \<and> nxt y = block + ?req"
      by blast
    from ok(3) reqs have fits: "?req \<le> bsize b"
      and ex: "bsize b - ?req \<le> sizeof_Header \<or> unat block + unat ?req < 2 ^ 63"
      and nx: "nxt b = 0 \<or> unat (nxt b) = unat block + unat (bsize b)"
      and top: "unat block + unat (bsize b) \<le> unat (brk_of st0)"
        "unat (brk_of st0) \<le> unat (s_heap st) + unat (s_heapsize st)"
      and hs: "s_heap st0 = s_heap st" "s_heapsize st0 = s_heapsize st"
      by (simp_all add: chosen_def)
    have brk: "brk_of st' = brk_of st0" "s_heap st' = s_heap st" "s_heapsize st' = s_heapsize st"
      using g hs by (simp_all add: same_globals_def brk_of_def)
    have fq: "unat ?req \<le> unat (bsize b)" using fits by (simp add: word_le_nat_alt)
    have props: "unat n + unat sizeof_Header \<le> unat (bsize y)
        \<and> (nxt y = 0 \<or> unat (nxt y) = unat block + unat (bsize y))
        \<and> unat block + unat (bsize y) \<le> unat (brk_of st')"
    proof (cases "bsize b - ?req \<le> sizeof_Header")
      case True
      with y(3) have "bsize y = bsize b" "nxt y = nxt b" by simp_all
      then show ?thesis using rb(1) fq nx top(1) brk(1) by (simp add: sizeof_Header_def)
    next
      case False
      with y(3) have yy: "bsize y = ?req" "nxt y = block + ?req" by simp_all
      from False ex have "unat block + unat ?req < 2 ^ 63" by simp
      then have "unat (block + ?req) = unat block + unat ?req"
        by (intro unat_plus_small) simp
      then show ?thesis using yy rb(1) fq top(1) brk(1) by (simp add: sizeof_Header_def)
    qed
    have "malloc n st = Some (Inr (block + sizeof_Header, st'))"
      using ok(2) mf by simp
    then show ?thesis
      using ok(1) q y(1,2) props top(2) brk by simp
  qed
qed

theorem malloc_result_witness:
  "wf_heap two_blocks [1048576, 1048640, 1048704] \<and> unat (100 :: addr) + 64 \<le> 2 ^ 63
   \<and> \<not> allocation_fails 100 two_blocks
   \<and> (case malloc 100 two_blocks of
         Some (Inr (q, st')) \<Rightarrow>
           q = 1048736
           \<and> hdrs st' (q - sizeof_Header)
               = Some \<lparr>prev = 1048640, nxt = 1048864, bsize = 160, flags = 1\<rparr>
       | _ \<Rightarrow> False)
   \<and> wf_heap full_heap [1048576, 1048640] \<and> unat (100000 :: addr) + 64 \<le> 2 ^ 63
   \<and> allocation_fails 100000 full_heap
   \<and> (case malloc 100000 full_heap of
         Some (Inr (q, st')) \<Rightarrow> q = 0 \<and> errno st' = ENOMEM \<and> hdrs st' = hdrs full_heap
       | _ \<Rightarrow> False)"
proof -
  have w1: "wf_heap two_blocks [1048576, 1048640, 1048704]"
    by (simp add: example_simps)
  have n1: "unat (100 :: addr) + 64 \<le> 2 ^ 63" by simp
  have w2: "wf_heap full_heap [1048576, 1048640]"
    by (simp add: example_simps)
  have n2: "unat (100000 :: addr) + 64 \<le> 2 ^ 63" by simp
  have f1: "\<not> allocation_fails 100 two_blocks"
    by (simp add: example_simps)
  have f2: "allocation_fails 100000 full_heap"
    by (simp add: example_simps)
  have e1: "case malloc 100 two_blocks of
         Some (Inr (q, st')) \<Rightarrow>
           q = 1048736
           \<and> hdrs st' (q - sizeof_Header)
               = Some \<lparr>prev = 1048640, nxt = 1048864, bsize = 160, flags = 1\<rparr>
       | _ \<Rightarrow> False"
    by (simp add: example_simps)
  show ?thesis
    using malloc_result [OF w1 n1] malloc_result [OF w2 n2] w1 n1 w2 n2 f1 f2 e1
    by (auto split: option.splits sum.splits)
qed

section \<open>realloc\<close>

text \<open>
  What \<open>realloc\<close> is made of.  \<open>realloc(null, n)\<close> is \<open>malloc(n)\<close>; \<open>realloc(p, 0)\<close>
  with \<open>p\<close> not null is \<open>free(p)\<close> and returns null; in these two cases, and for
  every block \<open>p\<close> that is allocated in the list of a well-formed heap with \<open>n\<close> not
  zero, \<open>realloc\<close> is the operation \<open>resize\<close> worded after the specification, which
  takes the old usable size from the block as the call finds it.  In the last case
  the call comes to an end, and an address it returns after a successful allocation
  is neither null nor \<open>p\<close>.  Whether it returns is another matter: the \<open>free\<close> at
  its end is the \<open>free\<close> of malloc.c.
\<close>

lemma realloc_resize_eq:
  "realloc 0 n st = malloc n st
   \<and> (p \<noteq> 0 \<longrightarrow>
        realloc p 0 st = Some (case free p st of Inl e \<Rightarrow> Inl e | Inr st' \<Rightarrow> Inr (0, st')))
   \<and> (p = 0 \<or> n = 0 \<longrightarrow> realloc p n st = resize p n st)
   \<and> (wf_heap st bs \<and> p \<noteq> 0 \<and> n \<noteq> 0 \<and> p - sizeof_Header \<in> set bs
        \<and> hdrs st (p - sizeof_Header) = Some x \<and> is_allocated x \<longrightarrow>
        realloc p n st = resize p n st
        \<and> realloc p n st \<noteq> None
        \<and> (case realloc p n st of
              Some (Inr (q, st')) \<Rightarrow>
                if allocation_fails n st then q = 0 else q \<noteq> 0 \<and> q \<noteq> p
            | _ \<Rightarrow> True))"
proof -
  have 1: "realloc 0 n st = malloc n st"
    by (simp add: realloc_def)
  have 2: "realloc p 0 st = Some (case free p st of Inl e \<Rightarrow> Inl e | Inr st' \<Rightarrow> Inr (0, st'))"
    if "p \<noteq> 0"
    using that by (simp add: realloc_def bindE_def split: sum.splits)
  have 3: "realloc p n st = resize p n st" if "p = 0 \<or> n = 0"
    using that by (auto simp: realloc_def resize_def bindE_def split: sum.splits)
  have 4: "realloc p n st = resize p n st
        \<and> realloc p n st \<noteq> None
        \<and> (case realloc p n st of
              Some (Inr (q, st')) \<Rightarrow>
                if allocation_fails n st then q = 0 else q \<noteq> 0 \<and> q \<noteq> p
            | _ \<Rightarrow> True)"
    if wf: "wf_heap st bs" and p: "p \<noteq> 0" and n: "n \<noteq> 0"
      and a: "p - sizeof_Header \<in> set bs" and x: "hdrs st (p - sizeof_Header) = Some x"
      and al: "is_allocated x"
  proof -
    let ?a = "p - sizeof_Header"
    let ?req = "required_size n"
    from malloc_wf_cases [OF wf, of n]
    consider (fail) "allocation_fails n st"
        "malloc n st = Some (Inr (0, st\<lparr>s_brk := brk_of st, errno := ENOMEM\<rparr>))"
      | (ok) st0 block b where "\<not> allocation_fails n st"
        "malloc n st = Some (malloc_found block ?req st0)" "chosen st bs ?req st0 block b"
      by blast
    then show ?thesis
    proof cases
      case fail
      then show ?thesis using p n by (simp add: realloc_def resize_def Let_def)
    next
      case ok
      from chosen_malloc_found [OF ok(3)] obtain st1 where
        mf: "malloc_found block ?req st0 = Inr (block + sizeof_Header, st1)"
        and q: "block + sizeof_Header \<noteq> 0"
        and k: "\<forall>c\<in>set bs. c \<noteq> block \<longrightarrow> keeps st st1 c"
        by blast
      let ?q = "block + sizeof_Header"
      have m: "malloc n st = Some (Inr (?q, st1))" using ok(2) mf by simp
      from ok(3) have fr: "block \<in> set bs \<longrightarrow> is_free_at (hdrs st) block"
        by (simp add: chosen_def)
      have ne: "?a \<noteq> block"
        using fr a x al by (auto simp: is_free_at_def)
      with k a have "keeps st st1 ?a" by blast
      with x obtain y where y: "hdrs st1 ?a = Some y" "bsize y = bsize x"
        by (auto simp: keeps_def split: option.splits)
      have qp: "?q \<noteq> p" using ne by (metis add_diff_cancel_right')
      define k where "k = min (bsize x - sizeof_Header) n"
      have tc: "(if n < bsize y - sizeof_Header then n else bsize y - sizeof_Header) = k"
        using y(2) by (auto simp: min_def k_def)
      have r: "realloc p n st =
          Some (case memcpy ?q p k st1 of
                  Inl e \<Rightarrow> Inl e
                | Inr st2 \<Rightarrow> (case free p st2 of Inl e \<Rightarrow> Inl e | Inr st3 \<Rightarrow> Inr (?q, st3)))"
        using p n m q y(1) tc
        by (simp add: realloc_def Let_def rd_def bindE_def split: sum.splits)
      have s: "resize p n st =
          Some (case memcpy ?q p k st1 of
                  Inl e \<Rightarrow> Inl e
                | Inr st2 \<Rightarrow> (case free p st2 of Inl e \<Rightarrow> Inl e | Inr st3 \<Rightarrow> Inr (?q, st3)))"
        using p n m q x
        by (simp add: resize_def old_usable_size_def k_def)
      show ?thesis
        unfolding r s using ok(1) q qp
        by (auto split: sum.splits)
    qed
  qed
  show ?thesis using 1 2 3 4 by blast
qed

text \<open>
  The copy reaches headers too.  With the sum \<open>size + sizeof(struct Header)\<close>
  wrapped around, \<open>realloc(1048672, 2 ^ 64 - 1)\<close> on the heap of two blocks gets a
  block of 32 bytes at 1048704, and the 32 bytes it copies to 1048736 land on the
  header of the block behind it, which from then on holds the payload of the old
  block (here the byte at each address is the low byte of the address).
\<close>

lemma realloc_copies_over_header:
  "(case realloc 1048672 (- 1) (two_blocks\<lparr>bytes := (\<lambda>a. ucast a)\<rparr>) of
      Some (Inr (q, st')) \<Rightarrow>
        q = 1048736
        \<and> hdrs st' 1048704 = Some \<lparr>prev = 1048640, nxt = 1048736, bsize = 32, flags = 1\<rparr>
        \<and> hdrs st' 1048736
            = Some \<lparr>prev = 7450754115369591136, nxt = 8029475498074204520,
                    bsize = 8608196880778817904, flags = 2071624056\<rparr>
    | _ \<Rightarrow> False)"
  by (simp add: eval_simps copy_simps two_blocks_def mem_byte_def read_header_def
        read_field_def header_byte_def field_byte_def upt_rec)

text \<open>
  C6.  For a block \<open>p\<close> that is not null and \<open>n\<close> not zero, \<open>realloc\<close> is to allocate
  a fresh block, copy, free the original block and return the new address.  It ends
  with \<open>free(ptr)\<close>, and \<open>free\<close> faults on a block whose \<open>prev\<close> is null.  On the
  empty heap of 8 MiB, \<open>malloc(1)\<close> returns 1048608, in front of which lies the first
  block of the list; the allocation inside \<open>realloc(1048608, 100)\<close> succeeds, with the
  new address 1048672, the 32 bytes are copied, and then the call faults: it does
  not return the new address.
\<close>

theorem realloc_first_block_faults:
  "malloc 1 (heap0 1048576 8388608)
     = Some (Inr (1048608, state_after [Malloc 1] (heap0 1048576 8388608)))
   \<and> hdrs (state_after [Malloc 1] (heap0 1048576 8388608)) (1048608 - sizeof_Header)
       = Some \<lparr>prev = 0, nxt = 1048640, bsize = 64, flags = 1\<rparr>
   \<and> (case malloc 100 (state_after [Malloc 1] (heap0 1048576 8388608)) of
         Some (Inr (q, st')) \<Rightarrow> q = 1048672
       | _ \<Rightarrow> False)
   \<and> realloc 1048608 100 (state_after [Malloc 1] (heap0 1048576 8388608)) = Some (Inl Segfault)"
  by (simp add: eval_simps copy_simps)

text \<open>
  C10.  Let \<open>p\<close> be an allocated block and \<open>n\<close> not zero.  If the allocation inside
  \<open>realloc(p, n)\<close> fails (the search finds no block, the break cannot be advanced),
  \<open>realloc\<close> returns null; the headers, that of \<open>p\<close> among them, the payload bytes
  and the ends of the list are as before, and \<open>errno\<close> is \<open>ENOMEM\<close>.
\<close>

theorem realloc_failure_keeps_block:
  assumes "ptr \<noteq> 0" and "sz \<noteq> 0"
    and "hdrs st (ptr - sizeof_Header) = Some b" and "is_allocated b"
    and "allocation_fails sz st"
  shows "case realloc ptr sz st of
           Some (Inr (q, st')) \<Rightarrow>
             q = 0 \<and> hdrs st' = hdrs st \<and> bytes st' = bytes st
             \<and> s_head st' = s_head st \<and> s_tail st' = s_tail st
             \<and> stderr_out st' = stderr_out st \<and> errno st' = ENOMEM
             \<and> hdrs st' (ptr - sizeof_Header) = Some b
         | _ \<Rightarrow> False"
proof -
  have "hdrs (snd (sbrk incr st)) = hdrs st \<and> bytes (snd (sbrk incr st)) = bytes st
      \<and> s_head (snd (sbrk incr st)) = s_head st \<and> s_tail (snd (sbrk incr st)) = s_tail st
      \<and> stderr_out (snd (sbrk incr st)) = stderr_out st" for incr
    by (simp add: sbrk_def Let_def)
  then show ?thesis
    using assms by (simp add: realloc_def malloc_fails Let_def)
qed

theorem realloc_failure_keeps_block_witness:
  "(1048608 :: addr) \<noteq> 0 \<and> (100000 :: addr) \<noteq> 0
   \<and> hdrs full_heap (1048608 - sizeof_Header)
       = Some \<lparr>prev = 0, nxt = 1048640, bsize = 64, flags = 1\<rparr>
   \<and> is_allocated \<lparr>prev = 0, nxt = 1048640, bsize = 64, flags = 1\<rparr>
   \<and> allocation_fails 100000 full_heap
   \<and> (case realloc 1048608 100000 full_heap of
         Some (Inr (q, st')) \<Rightarrow>
           q = 0 \<and> hdrs st' = hdrs full_heap \<and> bytes st' = bytes full_heap
           \<and> s_head st' = s_head full_heap \<and> s_tail st' = s_tail full_heap
           \<and> errno st' = ENOMEM
       | _ \<Rightarrow> False)"
proof -
  let ?b = "\<lparr>prev = 0, nxt = 1048640, bsize = 64, flags = 1\<rparr>"
  have b: "hdrs full_heap (1048608 - sizeof_Header) = Some ?b"
    by (simp add: example_simps)
  have a: "is_allocated ?b" by (simp add: is_allocated_def ALLOCATED_def)
  have f: "allocation_fails 100000 full_heap"
    by (simp add: example_simps)
  have p: "(1048608 :: addr) \<noteq> 0" and n: "(100000 :: addr) \<noteq> 0" by simp_all
  show ?thesis
    using realloc_failure_keeps_block [OF p n b a f] b a f
    by (auto split: option.splits sum.splits)
qed

section \<open>calloc\<close>



end
